theory Spec2Isabelle
  imports Main "HOL-Library.AList"
begin

section \<open>Values of the host language\<close>

text \<open>
  Strings are byte strings (UTF-8). A \<open>number\<close> is modelled by an integer: identifiers,
  limits, pages and HTTP status codes are integers, and for an integer below \<open>10^21\<close>
  the host's \<open>Number.prototype.toString\<close> is the decimal numeral computed here.
  A parameter value is what the parameter interfaces of the client declare:
  a string, a number, a boolean, an array of those, or a missing value
  (\<open>undefined\<close> or \<open>null\<close>).
\<close>

datatype scalar = Str string | Num int | Bool bool

datatype pvalue = Undefined | Null | Scalar scalar | Arr "scalar list"

text \<open>
  A parameter bag is the list of the object's entries, in the order \<open>Object.entries\<close>
  enumerates them; the keys of an object are pairwise distinct.
\<close>

type_synonym params = "(string \<times> pvalue) list"

definition digit_char :: "nat \<Rightarrow> char" where
  "digit_char n = ''0123456789ABCDEF'' ! n"

function nat_to_string :: "nat \<Rightarrow> string" where
  "nat_to_string n =
     (if n < 10 then [digit_char n] else nat_to_string (n div 10) @ [digit_char (n mod 10)])"
  by pat_completeness auto
termination
  by (relation "measure id") auto

declare nat_to_string.simps [simp del]

definition number_toString :: "int \<Rightarrow> string" where
  "number_toString i =
     (if i < 0 then CHR ''-'' # nat_to_string (nat (- i)) else nat_to_string (nat i))"

fun toString :: "scalar \<Rightarrow> string" where
  "toString (Str s) = s"
| "toString (Num n) = number_toString n"
| "toString (Bool b) = (if b then ''true'' else ''false'')"

text \<open>
  Object spread \<open>{...target, ...src}\<close>: every entry of \<open>src\<close> is written into the
  target, in place when the key is there already and at the end otherwise.
\<close>

definition obj_spread :: "params \<Rightarrow> params \<Rightarrow> params" where
  "obj_spread target src = foldl (\<lambda>obj kv. AList.update (fst kv) (snd kv) obj) target src"

section \<open>The URL library: \<open>URL\<close> and \<open>URLSearchParams\<close>\<close>

type_synonym search_params = "(string \<times> string) list"

definition sp_append :: "string \<Rightarrow> string \<Rightarrow> search_params \<Rightarrow> search_params" where
  "sp_append name v l = l @ [(name, v)]"

text \<open>
  \<open>set\<close> overwrites the first pair of that name and removes the later ones; with no such
  pair it appends.
\<close>

fun sp_set :: "string \<Rightarrow> string \<Rightarrow> search_params \<Rightarrow> search_params" where
  "sp_set name v [] = [(name, v)]"
| "sp_set name v (p # l) =
     (if fst p = name then (name, v) # filter (\<lambda>q. fst q \<noteq> name) l
      else p # sp_set name v l)"

text \<open>The \<open>application/x-www-form-urlencoded\<close> serialiser.\<close>

definition form_safe :: "char \<Rightarrow> bool" where
  "form_safe c = (let n = (of_char c :: nat) in
     (48 \<le> n \<and> n \<le> 57) \<or> (65 \<le> n \<and> n \<le> 90) \<or> (97 \<le> n \<and> n \<le> 122)
     \<or> n = 42 \<or> n = 45 \<or> n = 46 \<or> n = 95)"

definition form_encode_byte :: "char \<Rightarrow> string" where
  "form_encode_byte c =
     (if c = CHR '' '' then ''+''
      else if form_safe c then [c]
      else [CHR ''%'', digit_char (of_char c div 16), digit_char (of_char c mod 16)])"

definition form_encode :: "string \<Rightarrow> string" where
  "form_encode s = concat (map form_encode_byte s)"

fun join_amp :: "string list \<Rightarrow> string" where
  "join_amp [] = []"
| "join_amp [x] = x"
| "join_amp (x # y # ys) = x @ CHR ''&'' # join_amp (y # ys)"

definition sp_serialize :: "search_params \<Rightarrow> string" where
  "sp_serialize l =
     join_amp (map (\<lambda>p. form_encode (fst p) @ CHR ''='' # form_encode (snd p)) l)"

text \<open>The \<open>application/x-www-form-urlencoded\<close> parser.\<close>

definition cut_at :: "char \<Rightarrow> string \<Rightarrow> string \<times> string option" where
  "cut_at d s =
     (takeWhile (\<lambda>c. c \<noteq> d) s,
      if d \<in> set s then Some (tl (dropWhile (\<lambda>c. c \<noteq> d) s)) else None)"

fun split_on :: "char \<Rightarrow> string \<Rightarrow> string list" where
  "split_on d [] = [[]]"
| "split_on d (c # cs) =
     (if c = d then [] # split_on d cs
      else (case split_on d cs of [] \<Rightarrow> [[c]] | w # ws \<Rightarrow> (c # w) # ws))"

definition hex_value :: "char \<Rightarrow> nat option" where
  "hex_value c = (let n = (of_char c :: nat) in
     if 48 \<le> n \<and> n \<le> 57 then Some (n - 48)
     else if 65 \<le> n \<and> n \<le> 70 then Some (n - 55)
     else if 97 \<le> n \<and> n \<le> 102 then Some (n - 87)
     else None)"

fun percent_decode :: "string \<Rightarrow> string" where
  "percent_decode (c # h # l # rest) =
     (if c = CHR ''%'' then
        (case hex_value h of
           None \<Rightarrow> c # percent_decode (h # l # rest)
         | Some a \<Rightarrow>
            (case hex_value l of
               None \<Rightarrow> c # percent_decode (h # l # rest)
             | Some b \<Rightarrow> char_of (16 * a + b) # percent_decode rest))
      else c # percent_decode (h # l # rest))"
| "percent_decode s = s"

definition form_decode :: "string \<Rightarrow> string" where
  "form_decode s = percent_decode (map (\<lambda>c. if c = CHR ''+'' then CHR '' '' else c) s)"

definition parse_pair :: "string \<Rightarrow> string \<times> string" where
  "parse_pair s =
     (case cut_at CHR ''='' s of
        (n, v) \<Rightarrow> (form_decode n, form_decode (case v of None \<Rightarrow> [] | Some w \<Rightarrow> w)))"

definition sp_parse :: "string \<Rightarrow> search_params" where
  "sp_parse s = map parse_pair (filter (\<lambda>q. q \<noteq> []) (split_on CHR ''&'' s))"

text \<open>
  A URL record: the serialisation up to the end of the path, the query (absent, or the text
  after \<open>?\<close>), the fragment (absent, or the text after \<open>#\<close>) and the list of the
  \<open>searchParams\<close> object, which the parser fills from the query.

  The parser cuts the fragment at the first \<open>#\<close> and the query at the first \<open>?\<close> of
  what is left, and keeps the text before them as it is written. For the fixed base
  followed by a fixed path and a decimal identifier that is all the library does. A
  by-hash string may hold other characters: what the library does to them inside the
  path (percent-encoding, dot segments, backslashes, removal of tabs and newlines) is
  not modelled, and no property below reads the path of such a URL.
\<close>

record url =
  url_path :: string
  url_query :: "string option"
  url_fragment :: "string option"
  searchParams :: search_params

definition newURL :: "string \<Rightarrow> url" where
  "newURL s =
     (case cut_at CHR ''#'' s of
        (s', frag) \<Rightarrow>
          (case cut_at CHR ''?'' s' of
             (p, q) \<Rightarrow>
               \<lparr>url_path = p, url_query = q, url_fragment = frag,
                searchParams = sp_parse (case q of None \<Rightarrow> [] | Some w \<Rightarrow> w)\<rparr>))"

text \<open>
  A change of the \<open>searchParams\<close> list updates the query of its URL: the serialised list,
  or no query when the list is empty.
\<close>

definition sp_update :: "search_params \<Rightarrow> url \<Rightarrow> url" where
  "sp_update l u =
     u\<lparr>searchParams := l, url_query := (if l = [] then None else Some (sp_serialize l))\<rparr>"

definition url_set :: "string \<Rightarrow> string \<Rightarrow> url \<Rightarrow> url" where
  "url_set name v u = sp_update (sp_set name v (searchParams u)) u"

definition url_append :: "string \<Rightarrow> string \<Rightarrow> url \<Rightarrow> url" where
  "url_append name v u = sp_update (sp_append name v (searchParams u)) u"

definition url_toString :: "url \<Rightarrow> string" where
  "url_toString u =
     url_path u
     @ (case url_query u of None \<Rightarrow> [] | Some q \<Rightarrow> CHR ''?'' # q)
     @ (case url_fragment u of None \<Rightarrow> [] | Some f \<Rightarrow> CHR ''#'' # f)"

text \<open>The query parameters a reader of a URL string finds in it, and the values of one key.\<close>

definition href_params :: "string \<Rightarrow> search_params" where
  "href_params s = searchParams (newURL s)"

definition occurrences :: "string \<Rightarrow> search_params \<Rightarrow> string list" where
  "occurrences name l = map snd (filter (\<lambda>p. fst p = name) l)"

section \<open>The catalog client: URL construction\<close>

record client =
  apiKey :: "string option"

definition CivitaiClient :: "string option \<Rightarrow> client" where
  "CivitaiClient k = \<lparr>apiKey = k\<rparr>"

definition baseUrl :: string where
  "baseUrl = ''https://civitai.com/api/v1''"

text \<open>
  The test \<open>if (this.apiKey)\<close>: an absent key and the empty string are both falsy.
\<close>

definition configured_token :: "client \<Rightarrow> string option" where
  "configured_token c =
     (case apiKey c of None \<Rightarrow> None | Some k \<Rightarrow> if k = [] then None else Some k)"

definition add_param :: "url \<Rightarrow> string \<times> pvalue \<Rightarrow> url" where
  "add_param u kv =
     (case snd kv of
        Undefined \<Rightarrow> u
      | Null \<Rightarrow> u
      | Scalar s \<Rightarrow> if s = Str [] then u else url_set (fst kv) (toString s) u
      | Arr vs \<Rightarrow> foldl (\<lambda>w v. url_append (fst kv) (toString v) w) u vs)"

definition buildUrlObj :: "client \<Rightarrow> string \<Rightarrow> params \<Rightarrow> url" where
  "buildUrlObj c endpoint ps =
     (let u = newURL (baseUrl @ endpoint);
          u = (case configured_token c of None \<Rightarrow> u | Some k \<Rightarrow> url_set ''token'' k u)
      in foldl add_param u ps)"

definition buildUrl :: "client \<Rightarrow> string \<Rightarrow> params \<Rightarrow> string" where
  "buildUrl c endpoint ps = url_toString (buildUrlObj c endpoint ps)"

definition getDownloadUrl :: "client \<Rightarrow> int \<Rightarrow> string" where
  "getDownloadUrl c modelVersionId =
     buildUrl c (''/download/models/'' @ number_toString modelVersionId) []"

section \<open>The schema layer\<close>

text \<open>
  A decoded value. \<open>JUndefined\<close> is what reading a missing key of an object gives; it
  never occurs inside a decoded response. An object is the list of its entries, read by
  key with \<open>map_of\<close>; the keys of a decoded object are pairwise distinct. Numbers are
  integers here: the validators test only that a value is a number.
\<close>

datatype json =
    JUndefined | JNull | JBool bool | JNum int | JStr string
  | JArr "json list" | JObj "(string \<times> json) list"

text \<open>
  The combinators of the validation library that \<open>types.ts\<close> uses. \<open>zparse\<close> is the
  library's synchronous \<open>parse\<close>: \<open>None\<close> stands for the thrown validation error. An
  object schema reads every key of its shape, drops every other key, and keeps a key in
  the result when the validated value is not \<open>undefined\<close> or the key is in the input.
  A union returns the result of its first option that validates.
\<close>

datatype zod =
    ZNumber | ZString | ZBoolean | ZAny | ZEnum "string list"
  | ZOptional zod | ZNullable zod | ZUnion "zod list" | ZArray zod | ZRecord zod
  | ZObject "(string \<times> zod) list"

definition obj_get :: "(string \<times> json) list \<Rightarrow> string \<Rightarrow> json" where
  "obj_get obj k = (case map_of obj k of None \<Rightarrow> JUndefined | Some v \<Rightarrow> v)"

fun zparse :: "zod \<Rightarrow> json \<Rightarrow> json option"
  and zparse_shape :: "(string \<times> zod) list \<Rightarrow> (string \<times> json) list \<Rightarrow> (string \<times> json) list option"
  and zparse_union :: "zod list \<Rightarrow> json \<Rightarrow> json option"
  and zparse_items :: "zod \<Rightarrow> json list \<Rightarrow> json list option"
  and zparse_values :: "zod \<Rightarrow> (string \<times> json) list \<Rightarrow> (string \<times> json) list option"
where
  "zparse ZNumber v = (case v of JNum n \<Rightarrow> Some v | _ \<Rightarrow> None)"
| "zparse ZString v = (case v of JStr s \<Rightarrow> Some v | _ \<Rightarrow> None)"
| "zparse ZBoolean v = (case v of JBool b \<Rightarrow> Some v | _ \<Rightarrow> None)"
| "zparse ZAny v = Some v"
| "zparse (ZEnum vs) v = (case v of JStr s \<Rightarrow> if s \<in> set vs then Some v else None | _ \<Rightarrow> None)"
| "zparse (ZOptional s) v = (if v = JUndefined then Some JUndefined else zparse s v)"
| "zparse (ZNullable s) v = (if v = JNull then Some JNull else zparse s v)"
| "zparse (ZUnion ss) v = zparse_union ss v"
| "zparse (ZArray s) v = (case v of JArr xs \<Rightarrow> map_option JArr (zparse_items s xs) | _ \<Rightarrow> None)"
| "zparse (ZRecord s) v = (case v of JObj obj \<Rightarrow> map_option JObj (zparse_values s obj) | _ \<Rightarrow> None)"
| "zparse (ZObject shape) v = (case v of JObj obj \<Rightarrow> map_option JObj (zparse_shape shape obj) | _ \<Rightarrow> None)"
| "zparse_shape [] obj = Some []"
| "zparse_shape (f # shape) obj =
     (case zparse (snd f) (obj_get obj (fst f)) of
        None \<Rightarrow> None
      | Some r \<Rightarrow>
         (case zparse_shape shape obj of
            None \<Rightarrow> None
          | Some rs \<Rightarrow>
              Some (if r \<noteq> JUndefined \<or> map_of obj (fst f) \<noteq> None then (fst f, r) # rs else rs)))"
| "zparse_union [] v = None"
| "zparse_union (s # ss) v = (case zparse s v of Some r \<Rightarrow> Some r | None \<Rightarrow> zparse_union ss v)"
| "zparse_items s [] = Some []"
| "zparse_items s (x # xs) =
     (case zparse s x of
        None \<Rightarrow> None
      | Some r \<Rightarrow> (case zparse_items s xs of None \<Rightarrow> None | Some rs \<Rightarrow> Some (r # rs)))"
| "zparse_values s [] = Some []"
| "zparse_values s (kv # obj) =
     (case zparse s (snd kv) of
        None \<Rightarrow> None
      | Some r \<Rightarrow> (case zparse_values s obj of None \<Rightarrow> None | Some rs \<Rightarrow> Some ((fst kv, r) # rs)))"

text \<open>The schemas of \<open>types.ts\<close>, field by field.\<close>

definition NSFWLevel :: zod where
  "NSFWLevel = ZEnum [''None'', ''Soft'', ''Mature'', ''X'']"

definition ModelType_values :: "string list" where
  "ModelType_values =
     [''Checkpoint'', ''TextualInversion'', ''Hypernetwork'', ''AestheticGradient'', ''LORA'',
      ''Controlnet'', ''Poses'']"

definition ModelType :: zod where
  "ModelType = ZEnum ModelType_values"

definition ModelMode :: zod where
  "ModelMode = ZOptional (ZNullable (ZEnum [''Archived'', ''TakenDown'']))"

definition FileFormat :: zod where
  "FileFormat = ZEnum [''SafeTensor'', ''PickleTensor'', ''Other'']"

definition FileSize :: zod where
  "FileSize = ZEnum [''full'', ''pruned'']"

definition FloatingPoint :: zod where
  "FloatingPoint = ZEnum [''fp16'', ''fp32'', ''bf16'']"

definition MetadataSchema :: zod where
  "MetadataSchema = ZObject
     [(''totalItems'', ZOptional ZNumber),
      (''currentPage'', ZOptional ZNumber),
      (''pageSize'', ZOptional ZNumber),
      (''totalPages'', ZOptional ZNumber),
      (''nextPage'', ZOptional ZString),
      (''prevPage'', ZOptional ZString),
      (''nextCursor'', ZOptional (ZUnion [ZNumber, ZString]))]"

definition StatsSchema :: zod where
  "StatsSchema = ZObject
     [(''downloadCount'', ZOptional ZNumber),
      (''favoriteCount'', ZOptional ZNumber),
      (''commentCount'', ZOptional ZNumber),
      (''ratingCount'', ZOptional ZNumber),
      (''rating'', ZOptional ZNumber),
      (''cryCount'', ZOptional ZNumber),
      (''laughCount'', ZOptional ZNumber),
      (''likeCount'', ZOptional ZNumber),
      (''heartCount'', ZOptional ZNumber),
      (''dislikeCount'', ZOptional ZNumber)]"

definition CreatorSchema :: zod where
  "CreatorSchema = ZObject
     [(''username'', ZString),
      (''image'', ZOptional (ZNullable ZString)),
      (''modelCount'', ZOptional ZNumber),
      (''link'', ZOptional ZString)]"

definition FileMetadataSchema :: zod where
  "FileMetadataSchema = ZOptional (ZObject
     [(''fp'', ZOptional (ZNullable FloatingPoint)),
      (''size'', ZOptional (ZNullable FileSize)),
      (''format'', ZOptional (ZNullable FileFormat))])"

definition ModelFileSchema :: zod where
  "ModelFileSchema = ZObject
     [(''sizeKb'', ZOptional ZNumber),
      (''pickleScanResult'', ZOptional ZString),
      (''virusScanResult'', ZOptional ZString),
      (''scannedAt'', ZOptional (ZNullable ZString)),
      (''primary'', ZOptional ZBoolean),
      (''metadata'', FileMetadataSchema)]"

definition ImageSchema :: zod where
  "ImageSchema = ZObject
     [(''id'', ZOptional ZNumber),
      (''url'', ZString),
      (''hash'', ZString),
      (''width'', ZNumber),
      (''height'', ZNumber),
      (''nsfw'', ZOptional ZBoolean),
      (''nsfwLevel'', ZOptional (ZUnion [NSFWLevel, ZNumber])),
      (''createdAt'', ZOptional ZString),
      (''postId'', ZOptional ZNumber),
      (''stats'', ZOptional StatsSchema),
      (''meta'', ZOptional (ZNullable (ZRecord ZAny))),
      (''username'', ZOptional ZString),
      (''modelVersionIds'', ZOptional (ZArray ZNumber)),
      (''type'', ZOptional ZString),
      (''browsingLevel'', ZOptional ZNumber)]"

definition ModelVersionSchema :: zod where
  "ModelVersionSchema = ZObject
     [(''id'', ZNumber),
      (''name'', ZString),
      (''description'', ZOptional (ZNullable ZString)),
      (''createdAt'', ZOptional ZString),
      (''downloadUrl'', ZOptional ZString),
      (''trainedWords'', ZOptional (ZArray ZString)),
      (''files'', ZOptional (ZArray ModelFileSchema)),
      (''images'', ZOptional (ZArray ImageSchema)),
      (''stats'', ZOptional StatsSchema),
      (''index'', ZOptional ZNumber),
      (''baseModel'', ZOptional ZString)]"

definition ModelSchema :: zod where
  "ModelSchema = ZObject
     [(''id'', ZNumber),
      (''name'', ZString),
      (''description'', ZString),
      (''type'', ModelType),
      (''nsfw'', ZBoolean),
      (''tags'', ZArray ZString),
      (''mode'', ModelMode),
      (''creator'', CreatorSchema),
      (''stats'', ZOptional StatsSchema),
      (''modelVersions'', ZArray ModelVersionSchema),
      (''poi'', ZOptional ZBoolean)]"

definition TagSchema :: zod where
  "TagSchema = ZObject
     [(''name'', ZString),
      (''modelCount'', ZOptional ZNumber),
      (''link'', ZOptional ZString)]"

definition ModelsResponseSchema :: zod where
  "ModelsResponseSchema = ZObject [(''items'', ZArray ModelSchema), (''metadata'', MetadataSchema)]"

definition ImagesResponseSchema :: zod where
  "ImagesResponseSchema = ZObject [(''items'', ZArray ImageSchema), (''metadata'', MetadataSchema)]"

definition CreatorsResponseSchema :: zod where
  "CreatorsResponseSchema = ZObject [(''items'', ZArray CreatorSchema), (''metadata'', MetadataSchema)]"

definition TagsResponseSchema :: zod where
  "TagsResponseSchema = ZObject [(''items'', ZArray TagSchema), (''metadata'', MetadataSchema)]"

definition ModelVersionResponseSchema :: zod where
  "ModelVersionResponseSchema = ZObject
     [(''id'', ZNumber),
      (''name'', ZString),
      (''description'', ZString),
      (''model'', ZObject
         [(''name'', ZString),
          (''type'', ModelType),
          (''nsfw'', ZBoolean),
          (''poi'', ZOptional ZBoolean),
          (''mode'', ModelMode)]),
      (''modelId'', ZNumber),
      (''createdAt'', ZString),
      (''downloadUrl'', ZString),
      (''trainedWords'', ZArray ZString),
      (''files'', ZArray ModelFileSchema),
      (''stats'', StatsSchema),
      (''images'', ZArray ImageSchema)]"

text \<open>The minimal Model object of the round-trip property, and a minimal Image object.\<close>

definition minimal_model :: "int \<Rightarrow> string \<Rightarrow> string \<Rightarrow> string \<Rightarrow> bool \<Rightarrow> string \<Rightarrow> (string \<times> json) list" where
  "minimal_model i n d t b u =
     [(''id'', JNum i), (''name'', JStr n), (''description'', JStr d), (''type'', JStr t),
      (''nsfw'', JBool b), (''tags'', JArr []), (''mode'', JNull),
      (''creator'', JObj [(''username'', JStr u)]), (''modelVersions'', JArr [])]"

definition minimal_image :: "string \<Rightarrow> string \<Rightarrow> int \<Rightarrow> int \<Rightarrow> (string \<times> json) list" where
  "minimal_image u h w ht =
     [(''url'', JStr u), (''hash'', JStr h), (''width'', JNum w), (''height'', JNum ht)]"

section \<open>The catalog client: requests\<close>

text \<open>
  The network is a parameter: \<open>fetch\<close> answers a request with a rejection (a thrown
  value) or a response, whose body decodes to a value or throws. A thrown value is an
  \<open>Error\<close> with its message, or some other value. \<open>zod_message\<close> is the message of
  the validation error the library throws.
\<close>

datatype js_error = JsError string | NonError

record response =
  status :: nat
  statusText :: string
  json_body :: "js_error + json"

datatype fetch_outcome = Rejected js_error | Resolved response

record request =
  req_url :: string
  req_headers :: "(string \<times> string) list"

record env =
  fetch :: "request \<Rightarrow> fetch_outcome"
  zod_message :: "zod \<Rightarrow> json \<Rightarrow> string"

definition ok :: "response \<Rightarrow> bool" where
  "ok r = (200 \<le> status r \<and> status r \<le> 299)"

definition request_headers :: "client \<Rightarrow> (string \<times> string) list" where
  "request_headers c =
     (''Content-Type'', ''application/json'')
     # (case configured_token c of None \<Rightarrow> [] | Some k \<Rightarrow> [(''Authorization'', ''Bearer '' @ k)])"

definition outbound_request :: "client \<Rightarrow> string \<Rightarrow> request" where
  "outbound_request c u = \<lparr>req_url = u, req_headers = request_headers c\<rparr>"

text \<open>The body of the \<open>try\<close> block of \<open>makeRequest\<close>, then the \<open>catch\<close> around it.\<close>

definition try_request :: "client \<Rightarrow> env \<Rightarrow> string \<Rightarrow> zod \<Rightarrow> js_error + json" where
  "try_request c e u schema =
     (case fetch e (outbound_request c u) of
        Rejected x \<Rightarrow> Inl x
      | Resolved r \<Rightarrow>
          if \<not> ok r then
            Inl (JsError (''HTTP '' @ nat_to_string (status r) @ '': '' @ statusText r))
          else
            (case json_body r of
               Inl x \<Rightarrow> Inl x
             | Inr data \<Rightarrow>
                (case zparse schema data of
                   None \<Rightarrow> Inl (JsError (zod_message e schema data))
                 | Some v \<Rightarrow> Inr v)))"

definition error_message :: "js_error \<Rightarrow> string" where
  "error_message x = (case x of JsError m \<Rightarrow> m | NonError \<Rightarrow> ''Unknown error'')"

definition makeRequest :: "client \<Rightarrow> env \<Rightarrow> string \<Rightarrow> zod \<Rightarrow> js_error + json" where
  "makeRequest c e u schema =
     (case try_request c e u schema of
        Inl x \<Rightarrow> Inl (JsError (''API request failed: '' @ error_message x))
      | Inr v \<Rightarrow> Inr v)"

text \<open>
  The asynchronous methods of the client, one constructor each. An optional argument with
  a default (\<open>period = 'Week'\<close>, \<open>limit = 20\<close>) is an \<open>option\<close>: \<open>None\<close> is the
  argument left out. Each method builds one URL from an endpoint and a parameter bag and
  hands it to \<open>makeRequest\<close> with the schema of its response; the search helpers and the
  utility methods do so through \<open>getModels\<close>.
\<close>

datatype operation =
    GetModels params
  | GetModel int
  | GetModelVersion int
  | GetModelVersionByHash string
  | GetImages params
  | GetCreators params
  | GetTags params
  | SearchModels string params
  | SearchModelsByTag string params
  | SearchModelsByCreator string params
  | GetModelsByType string params
  | GetPopularModels "string option" "int option"
  | GetLatestModels "int option"
  | GetTopRatedModels "string option" "int option"

fun op_endpoint :: "operation \<Rightarrow> string" where
  "op_endpoint (GetModel modelId) = ''/models/'' @ number_toString modelId"
| "op_endpoint (GetModelVersion modelVersionId) = ''/model-versions/'' @ number_toString modelVersionId"
| "op_endpoint (GetModelVersionByHash hash) = ''/model-versions/by-hash/'' @ hash"
| "op_endpoint (GetImages ps) = ''/images''"
| "op_endpoint (GetCreators ps) = ''/creators''"
| "op_endpoint (GetTags ps) = ''/tags''"
| "op_endpoint _ = ''/models''"

fun op_params :: "operation \<Rightarrow> params" where
  "op_params (GetModels ps) = ps"
| "op_params (GetModel modelId) = []"
| "op_params (GetModelVersion modelVersionId) = []"
| "op_params (GetModelVersionByHash hash) = []"
| "op_params (GetImages ps) = ps"
| "op_params (GetCreators ps) = ps"
| "op_params (GetTags ps) = ps"
| "op_params (SearchModels query options) = obj_spread [(''query'', Scalar (Str query))] options"
| "op_params (SearchModelsByTag tag options) = obj_spread [(''tag'', Scalar (Str tag))] options"
| "op_params (SearchModelsByCreator username options) =
     obj_spread [(''username'', Scalar (Str username))] options"
| "op_params (GetModelsByType type options) = obj_spread [(''types'', Arr [Str type])] options"
| "op_params (GetPopularModels period limit) =
     [(''sort'', Scalar (Str ''Most Downloaded'')),
      (''period'', Scalar (Str (case period of None \<Rightarrow> ''Week'' | Some p \<Rightarrow> p))),
      (''limit'', Scalar (Num (case limit of None \<Rightarrow> 20 | Some l \<Rightarrow> l))),
      (''nsfw'', Scalar (Bool False))]"
| "op_params (GetLatestModels limit) =
     [(''sort'', Scalar (Str ''Newest'')),
      (''limit'', Scalar (Num (case limit of None \<Rightarrow> 20 | Some l \<Rightarrow> l))),
      (''nsfw'', Scalar (Bool False))]"
| "op_params (GetTopRatedModels period limit) =
     [(''sort'', Scalar (Str ''Highest Rated'')),
      (''period'', Scalar (Str (case period of None \<Rightarrow> ''AllTime'' | Some p \<Rightarrow> p))),
      (''limit'', Scalar (Num (case limit of None \<Rightarrow> 20 | Some l \<Rightarrow> l))),
      (''nsfw'', Scalar (Bool False))]"

fun op_schema :: "operation \<Rightarrow> zod" where
  "op_schema (GetModel modelId) = ModelSchema"
| "op_schema (GetModelVersion modelVersionId) = ModelVersionResponseSchema"
| "op_schema (GetModelVersionByHash hash) = ModelVersionResponseSchema"
| "op_schema (GetImages ps) = ImagesResponseSchema"
| "op_schema (GetCreators ps) = CreatorsResponseSchema"
| "op_schema (GetTags ps) = TagsResponseSchema"
| "op_schema _ = ModelsResponseSchema"

definition op_url :: "client \<Rightarrow> operation \<Rightarrow> string" where
  "op_url c opn = buildUrl c (op_endpoint opn) (op_params opn)"

definition perform :: "client \<Rightarrow> env \<Rightarrow> operation \<Rightarrow> js_error + json" where
  "perform c e opn = makeRequest c e (op_url c opn) (op_schema opn)"

definition list_operations :: "params \<Rightarrow> operation list" where
  "list_operations ps = [GetModels ps, GetImages ps, GetCreators ps, GetTags ps]"

section \<open>Notions used to state the properties\<close>

text \<open>
  The characters that structure a URL and a query; a URL record whose parts carry none of
  them where they would be read as structure, and whose list is the parse of its query.
\<close>

definition reserved :: "char \<Rightarrow> bool" where
  "reserved c = (c = CHR ''&'' \<or> c = CHR ''='' \<or> c = CHR ''#'' \<or> c = CHR ''?'')"

definition url_consistent :: "url \<Rightarrow> bool" where
  "url_consistent u =
     (CHR ''#'' \<notin> set (url_path u) \<and> CHR ''?'' \<notin> set (url_path u)
      \<and> (case url_query u of
            None \<Rightarrow> searchParams u = []
          | Some q \<Rightarrow> CHR ''#'' \<notin> set q \<and> searchParams u = sp_parse q))"

text \<open>
  What one entry of a bag leaves of its key in the query, given the values of that key
  present before; and the values a key has before the bag is read: the configured token
  under \<open>token\<close>, nothing under any other key.
\<close>

definition value_occurrences :: "pvalue \<Rightarrow> string list \<Rightarrow> string list" where
  "value_occurrences v before =
     (case v of
        Undefined \<Rightarrow> before
      | Null \<Rightarrow> before
      | Scalar s \<Rightarrow> if s = Str [] then before else [toString s]
      | Arr vs \<Rightarrow> before @ map toString vs)"

definition token_occurrences :: "client \<Rightarrow> string \<Rightarrow> string list" where
  "token_occurrences c k =
     (if k = ''token'' then (case configured_token c of None \<Rightarrow> [] | Some t \<Rightarrow> [t]) else [])"

text \<open>A value that the URL builder skips.\<close>

definition skipped :: "pvalue \<Rightarrow> bool" where
  "skipped v = (v = Undefined \<or> v = Null \<or> v = Scalar (Str []))"

text \<open>
  An operation to which the caller hands no token of its own: no \<open>?\<close> in the endpoint
  (a by-hash string could carry a query) and no effective \<open>token\<close> entry in the bag.
\<close>

definition no_caller_token :: "operation \<Rightarrow> bool" where
  "no_caller_token opn =
     (CHR ''?'' \<notin> set (op_endpoint opn) \<and> distinct (map fst (op_params opn))
      \<and> (case map_of (op_params opn) ''token'' of None \<Rightarrow> True | Some v \<Rightarrow> skipped v))"

section \<open>Properties of the URL library\<close>

lemma occurrences_sp_set:
  "occurrences k (sp_set n v l) = (if k = n then [v] else occurrences k l)"
proof (induction l)
  case Nil
  show ?case by (simp add: occurrences_def)
next
  case (Cons p l)
  have "map snd (filter (\<lambda>q. fst q = n) (filter (\<lambda>q. fst q \<noteq> n) l)) = []"
    by (induction l) auto
  moreover have "k \<noteq> n \<Longrightarrow>
      filter (\<lambda>q. fst q = k) (filter (\<lambda>q. fst q \<noteq> n) l) = filter (\<lambda>q. fst q = k) l"
    by (induction l) auto
  ultimately show ?case using Cons by (auto simp: occurrences_def)
qed

lemma occurrences_sp_append:
  "occurrences k (sp_append n v l) = occurrences k l @ (if k = n then [v] else [])"
  by (simp add: occurrences_def sp_append_def)

lemma searchParams_sp_update: "searchParams (sp_update l u) = l"
  by (simp add: sp_update_def)

lemma searchParams_append_all:
  "searchParams (foldl (\<lambda>w v. url_append k (toString v) w) u vs)
     = searchParams u @ map (\<lambda>v. (k, toString v)) vs"
  by (induction vs arbitrary: u)
    (simp_all add: url_append_def searchParams_sp_update sp_append_def)

lemma below_16: "m < 16 \<Longrightarrow> m \<in> {0, 1, 2, 3, 4, 5, 6, 7, 8, 9, 10, 11, 12, 13, 14, 15::nat}"
  by simp arith

lemma hex_value_digit: "m < 16 \<Longrightarrow> hex_value (digit_char m) = Some m"
  by (drule below_16) (auto simp: hex_value_def digit_char_def)

lemma digit_char_not_plus: "m < 16 \<Longrightarrow> digit_char m \<noteq> CHR ''+''"
  by (drule below_16) (auto simp: digit_char_def)

lemma digit_char_not_reserved: "m < 16 \<Longrightarrow> \<not> reserved (digit_char m)"
  by (drule below_16) (auto simp: digit_char_def reserved_def)

lemma percent_decode_plain:
  "c \<noteq> CHR ''%'' \<Longrightarrow> percent_decode (c # xs) = c # percent_decode xs"
  by (cases xs rule: percent_decode.cases) auto

lemma of_char_nat_bound: "(of_char c :: nat) < 256"
proof -
  have "(of_char c :: nat) mod 256 = of_char c" by simp
  then show ?thesis by (metis mod_less_divisor zero_less_numeral)
qed

lemma nibbles_bound: "(of_char c :: nat) div 16 < 16" "(of_char c :: nat) mod 16 < 16"
  using of_char_nat_bound [of c] by presburger+

lemma form_decode_encode_byte:
  "percent_decode (map (\<lambda>c. if c = CHR ''+'' then CHR '' '' else c) (form_encode_byte c) @ rest)
     = c # percent_decode rest"
proof (cases "c = CHR '' ''")
  case True
  then show ?thesis by (simp add: form_encode_byte_def percent_decode_plain)
next
  case False
  show ?thesis
  proof (cases "form_safe c")
    case True
    then have "c \<noteq> CHR ''%''" "c \<noteq> CHR ''+''" by (auto simp: form_safe_def)
    with True False show ?thesis by (simp add: form_encode_byte_def percent_decode_plain)
  next
    case nsafe: False
    let ?h = "digit_char ((of_char c :: nat) div 16)"
    let ?l = "digit_char ((of_char c :: nat) mod 16)"
    have "percent_decode (CHR ''%'' # ?h # ?l # rest) = c # percent_decode rest"
      using hex_value_digit [OF nibbles_bound(1)] hex_value_digit [OF nibbles_bound(2)]
      by simp
    then show ?thesis
      using False nsafe digit_char_not_plus [OF nibbles_bound(1), of c]
        digit_char_not_plus [OF nibbles_bound(2), of c]
      by (simp add: form_encode_byte_def)
  qed
qed

lemma form_decode_encode_append:
  "percent_decode (map (\<lambda>c. if c = CHR ''+'' then CHR '' '' else c) (form_encode s) @ rest)
     = s @ percent_decode rest"
  by (induction s) (simp_all add: form_encode_def form_decode_encode_byte)

lemma form_decode_encode: "form_decode (form_encode s) = s"
  using form_decode_encode_append [of s "[]"] by (simp add: form_decode_def)

lemma form_encode_byte_not_reserved: "x \<in> set (form_encode_byte c) \<Longrightarrow> \<not> reserved x"
proof -
  assume x: "x \<in> set (form_encode_byte c)"
  have s: "form_safe c \<Longrightarrow> \<not> reserved c"
    by (auto simp: form_safe_def reserved_def)
  show ?thesis
    using x s digit_char_not_reserved [OF nibbles_bound(1), of c]
      digit_char_not_reserved [OF nibbles_bound(2), of c]
    by (auto simp: form_encode_byte_def reserved_def split: if_splits)
qed

lemma form_encode_not_reserved: "x \<in> set (form_encode s) \<Longrightarrow> \<not> reserved x"
  by (auto simp: form_encode_def dest: form_encode_byte_not_reserved)

lemma split_on_none: "d \<notin> set x \<Longrightarrow> split_on d x = [x]"
  by (induction x) auto

lemma split_on_append: "d \<notin> set x \<Longrightarrow> split_on d (x @ d # rest) = x # split_on d rest"
  by (induction x) auto

lemma split_on_join_amp:
  "xs \<noteq> [] \<Longrightarrow> (\<And>x. x \<in> set xs \<Longrightarrow> CHR ''&'' \<notin> set x) \<Longrightarrow>
   split_on CHR ''&'' (join_amp xs) = xs"
proof (induction xs rule: join_amp.induct)
  case 1
  then show ?case by simp
next
  case (2 x)
  then show ?case by (simp add: split_on_none)
next
  case (3 x y ys)
  then show ?case by (simp add: split_on_append)
qed

lemma cut_at_append: "d \<notin> set a \<Longrightarrow> cut_at d (a @ d # b) = (a, Some b)"
  by (induction a) (auto simp: cut_at_def)

lemma cut_at_none: "d \<notin> set a \<Longrightarrow> cut_at d a = (a, None)"
  by (induction a) (auto simp: cut_at_def)

lemma parse_pair_encode:
  "parse_pair (form_encode k @ CHR ''='' # form_encode v) = (k, v)"
proof -
  have "CHR ''='' \<notin> set (form_encode k)"
    using form_encode_not_reserved [of "CHR ''=''" k] by (auto simp: reserved_def)
  then show ?thesis
    by (simp add: parse_pair_def cut_at_append form_decode_encode)
qed

text \<open>Parsing a serialised list gives the list back.\<close>

lemma sp_parse_serialize: "sp_parse (sp_serialize l) = l"
proof (cases "l = []")
  case True
  then show ?thesis by (simp add: sp_parse_def sp_serialize_def)
next
  case False
  let ?xs = "map (\<lambda>p. form_encode (fst p) @ CHR ''='' # form_encode (snd p)) l"
  have amp: "CHR ''&'' \<notin> set x" if "x \<in> set ?xs" for x
    using that form_encode_not_reserved [of "CHR ''&''"] by (auto simp: reserved_def)
  have "split_on CHR ''&'' (join_amp ?xs) = ?xs"
    using False amp by (intro split_on_join_amp) auto
  moreover have "filter (\<lambda>q. q \<noteq> []) ?xs = ?xs"
    by (induction l) auto
  moreover have "map parse_pair ?xs = l"
    by (induction l) (auto simp: parse_pair_encode)
  ultimately show ?thesis by (simp add: sp_parse_def sp_serialize_def)
qed

lemma sp_serialize_no_hash: "CHR ''#'' \<notin> set (sp_serialize l)"
proof -
  let ?xs = "map (\<lambda>p. form_encode (fst p) @ CHR ''='' # form_encode (snd p)) l"
  have a: "CHR ''#'' \<notin> set x" if "x \<in> set ?xs" for x
    using that form_encode_not_reserved [of "CHR ''#''"] by (auto simp: reserved_def)
  have h: "(\<And>x. x \<in> set xs \<Longrightarrow> CHR ''#'' \<notin> set x) \<Longrightarrow> CHR ''#'' \<notin> set (join_amp xs)" for xs
    by (induction xs rule: join_amp.induct) auto
  show ?thesis unfolding sp_serialize_def by (rule h) (rule a)
qed

lemma sp_parse_empty: "sp_parse [] = []"
  by (simp add: sp_parse_def)

lemma newURL_consistent: "url_consistent (newURL s)"
proof -
  have "CHR ''#'' \<notin> set (takeWhile (\<lambda>c. c \<noteq> CHR ''#'') s)"
    by (auto dest: set_takeWhileD)
  moreover have "x \<in> set (tl (dropWhile P xs)) \<Longrightarrow> x \<in> set xs" for x :: char and P xs
  proof -
    assume a: "x \<in> set (tl (dropWhile P xs))"
    have "set (tl (dropWhile P xs)) \<subseteq> set (dropWhile P xs)"
      by (rule subsetI) (metis list.sel(2) list.set_sel(2))
    with a have "x \<in> set (dropWhile P xs)" by blast
    then show "x \<in> set xs" by (rule set_dropWhileD)
  qed
  ultimately show ?thesis
    by (auto simp: url_consistent_def newURL_def cut_at_def sp_parse_empty dest: set_takeWhileD)
qed

lemma sp_update_consistent: "url_consistent u \<Longrightarrow> url_consistent (sp_update l u)"
  by (simp add: url_consistent_def sp_update_def sp_parse_serialize sp_serialize_no_hash)

text \<open>Reading back the string of a consistent URL gives the URL.\<close>

lemma newURL_toString: "url_consistent u \<Longrightarrow> newURL (url_toString u) = u"
proof -
  assume c: "url_consistent u"
  obtain p q f l where
    u: "u = \<lparr>url_path = p, url_query = q, url_fragment = f, searchParams = l\<rparr>"
    by (cases u) auto
  have p: "CHR ''#'' \<notin> set p" "CHR ''?'' \<notin> set p"
    using c u by (auto simp: url_consistent_def)
  show ?thesis
  proof (cases q)
    case None
    then have l: "l = []" using c u by (simp add: url_consistent_def)
    show ?thesis
    proof (cases f)
      case fn: None
      then show ?thesis using None l p u
        by (simp add: url_toString_def newURL_def cut_at_none sp_parse_empty)
    next
      case (Some fr)
      then show ?thesis using None l p u
        by (simp add: url_toString_def newURL_def cut_at_append cut_at_none sp_parse_empty)
    qed
  next
    case (Some qs)
    then have q: "CHR ''#'' \<notin> set qs" "l = sp_parse qs"
      using c u by (auto simp: url_consistent_def)
    show ?thesis
    proof (cases f)
      case None
      have "cut_at CHR ''#'' (p @ CHR ''?'' # qs) = (p @ CHR ''?'' # qs, None)"
        using p q by (intro cut_at_none) auto
      then show ?thesis using None Some p q u
        by (simp add: url_toString_def newURL_def cut_at_append)
    next
      case fs: (Some fr)
      have "cut_at CHR ''#'' ((p @ CHR ''?'' # qs) @ CHR ''#'' # fr) = (p @ CHR ''?'' # qs, Some fr)"
        using p q by (intro cut_at_append) auto
      then show ?thesis using fs Some p q u
        by (simp add: url_toString_def newURL_def cut_at_append)
    qed
  qed
qed

section \<open>Properties of the URL builder\<close>

lemma url_set_consistent: "url_consistent u \<Longrightarrow> url_consistent (url_set n v u)"
  by (simp add: url_set_def sp_update_consistent)

lemma url_append_consistent: "url_consistent u \<Longrightarrow> url_consistent (url_append n v u)"
  by (simp add: url_append_def sp_update_consistent)

lemma append_all_consistent:
  "url_consistent u \<Longrightarrow> url_consistent (foldl (\<lambda>w v. url_append k (toString v) w) u vs)"
  by (induction vs arbitrary: u) (simp_all add: url_append_consistent)

lemma add_param_consistent: "url_consistent u \<Longrightarrow> url_consistent (add_param u kv)"
  by (simp add: add_param_def url_set_consistent append_all_consistent split: pvalue.splits)

lemma add_params_consistent: "url_consistent u \<Longrightarrow> url_consistent (foldl add_param u ps)"
  by (induction ps arbitrary: u) (simp_all add: add_param_consistent)

lemma buildUrlObj_consistent: "url_consistent (buildUrlObj c ep ps)"
  by (simp add: buildUrlObj_def Let_def add_params_consistent url_set_consistent
      newURL_consistent split: option.splits)

text \<open>
  The query parameters read back from the string that \<open>buildUrl\<close> returns are the list
  the builder left in the URL object.
\<close>

lemma href_params_buildUrl: "href_params (buildUrl c ep ps) = searchParams (buildUrlObj c ep ps)"
  by (simp add: href_params_def buildUrl_def newURL_toString buildUrlObj_consistent)

lemma occurrences_add_param:
  "occurrences k (searchParams (add_param u (k', v)))
     = (if k = k' then value_occurrences v (occurrences k (searchParams u))
        else occurrences k (searchParams u))"
proof (cases v)
  case (Arr vs)
  have "occurrences k (searchParams u @ map (\<lambda>v. (k', toString v)) vs)
          = occurrences k (searchParams u) @ (if k = k' then map toString vs else [])"
    by (induction vs) (auto simp: occurrences_def)
  then show ?thesis using Arr
    by (simp add: add_param_def value_occurrences_def searchParams_append_all)
qed (simp_all add: add_param_def value_occurrences_def url_set_def searchParams_sp_update
      occurrences_sp_set)

lemma occurrences_add_params:
  "distinct (map fst ps) \<Longrightarrow>
   occurrences k (searchParams (foldl add_param u ps))
     = (case map_of ps k of
          None \<Rightarrow> occurrences k (searchParams u)
        | Some v \<Rightarrow> value_occurrences v (occurrences k (searchParams u)))"
proof (induction ps arbitrary: u)
  case Nil
  then show ?case by simp
next
  case (Cons p ps)
  obtain k' v' where p: "p = (k', v')" by (cases p)
  from Cons.prems p have d: "distinct (map fst ps)" and n: "k' \<notin> fst ` set ps" by auto
  show ?case
  proof (cases "k = k'")
    case True
    with n have "map_of ps k = None" by (simp add: map_of_eq_None_iff)
    then show ?thesis using Cons.IH [OF d, of "add_param u p"] p True
      by (simp add: occurrences_add_param)
  next
    case False
    then show ?thesis using Cons.IH [OF d, of "add_param u p"] p
      by (simp add: occurrences_add_param split: option.split)
  qed
qed

lemma baseUrl_plain: "CHR ''?'' \<notin> set baseUrl" "CHR ''#'' \<notin> set baseUrl"
  by (simp_all add: baseUrl_def)

lemma newURL_no_query:
  "CHR ''?'' \<notin> set s \<Longrightarrow> searchParams (newURL s) = [] \<and> url_query (newURL s) = None"
proof -
  assume a: "CHR ''?'' \<notin> set s"
  then have "CHR ''?'' \<notin> set (takeWhile (\<lambda>c. c \<noteq> CHR ''#'') s)"
    by (auto dest: set_takeWhileD)
  then show ?thesis
    by (auto simp: newURL_def cut_at_def sp_parse_empty)
qed

text \<open>
  The values of a key in the URL that \<open>buildUrl\<close> returns, for an endpoint with no
  query of its own and a bag with distinct keys.
\<close>

lemma occurrences_buildUrl:
  assumes "distinct (map fst ps)" and "CHR ''?'' \<notin> set ep"
  shows "occurrences k (href_params (buildUrl c ep ps))
           = (case map_of ps k of
                None \<Rightarrow> token_occurrences c k
              | Some v \<Rightarrow> value_occurrences v (token_occurrences c k))"
proof -
  let ?u0 = "newURL (baseUrl @ ep)"
  let ?u1 = "case configured_token c of None \<Rightarrow> ?u0 | Some t \<Rightarrow> url_set ''token'' t ?u0"
  have "searchParams ?u0 = []"
    using assms(2) baseUrl_plain by (intro conjunct1 [OF newURL_no_query]) simp
  then have "occurrences k (searchParams ?u1) = token_occurrences c k"
    by (auto simp: token_occurrences_def url_set_def searchParams_sp_update occurrences_def
        split: option.splits)
  then show ?thesis
    using occurrences_add_params [OF assms(1), of k ?u1]
    by (simp add: href_params_buildUrl buildUrlObj_def Let_def split: option.split)
qed

lemma newURL_plain:
  "CHR ''?'' \<notin> set s \<Longrightarrow> CHR ''#'' \<notin> set s \<Longrightarrow>
   newURL s = \<lparr>url_path = s, url_query = None, url_fragment = None, searchParams = []\<rparr>"
  by (simp add: newURL_def cut_at_none sp_parse_empty)

lemma nat_to_string_plain: "x \<in> set (nat_to_string n) \<Longrightarrow> \<not> reserved x"
proof (induction n rule: nat_to_string.induct)
  case (1 n)
  have d: "\<not> reserved (digit_char m)" if "m < 10" for m
    using that by (intro digit_char_not_reserved) simp
  show ?case
  proof (cases "n < 10")
    case True
    then have "nat_to_string n = [digit_char n]"
      by (subst nat_to_string.simps) simp
    then show ?thesis using "1.prems" d [OF True] by simp
  next
    case False
    then have e: "nat_to_string n = nat_to_string (n div 10) @ [digit_char (n mod 10)]"
      by (subst nat_to_string.simps) simp
    have "n mod 10 < 10" by simp
    then have "\<not> reserved (digit_char (n mod 10))" by (rule d)
    then show ?thesis using False "1.prems" "1.IH" unfolding e by auto
  qed
qed

lemma number_toString_plain: "x \<in> set (number_toString i) \<Longrightarrow> \<not> reserved x"
  by (auto simp: number_toString_def reserved_def dest: nat_to_string_plain split: if_splits)

lemma distinct_obj_spread:
  "distinct (map fst target) \<Longrightarrow> distinct (map fst (obj_spread target src))"
  unfolding obj_spread_def
  by (induction src arbitrary: target) (simp_all add: distinct_update)

lemma map_of_obj_spread:
  "distinct (map fst src) \<Longrightarrow>
   map_of (obj_spread target src) k
     = (case map_of src k of None \<Rightarrow> map_of target k | Some v \<Rightarrow> Some v)"
  unfolding obj_spread_def
proof (induction src arbitrary: target)
  case Nil
  then show ?case by simp
next
  case (Cons p src)
  from Cons.prems have d: "distinct (map fst src)" and n: "fst p \<notin> fst ` set src" by auto
  show ?case
  proof (cases "k = fst p")
    case True
    with n have "map_of src k = None" by (simp add: map_of_eq_None_iff)
    then show ?thesis using Cons.IH [OF d, of "AList.update (fst p) (snd p) target"] True
      by (simp add: update_conv')
  next
    case False
    then show ?thesis using Cons.IH [OF d, of "AList.update (fst p) (snd p) target"]
      by (simp add: update_conv' split: option.split)
  qed
qed

lemma occurrences_empty_iff: "(occurrences k l = []) = (k \<notin> fst ` set l)"
  by (induction l) (auto simp: occurrences_def)

lemma op_endpoint_list: "opn \<in> set (list_operations ps) \<Longrightarrow>
    CHR ''?'' \<notin> set (op_endpoint opn) \<and> op_params opn = ps"
  by (auto simp: list_operations_def)

text \<open>The equations that evaluate a URL on a concrete input.\<close>

lemmas url_eval = op_url_def buildUrl_def buildUrlObj_def Let_def newURL_def cut_at_def baseUrl_def
  configured_token_def CivitaiClient_def url_toString_def url_set_def url_append_def sp_update_def
  sp_append_def sp_serialize_def form_encode_def form_encode_byte_def form_safe_def digit_char_def
  number_toString_def nat_to_string.simps sp_parse_def add_param_def obj_spread_def

section \<open>Further properties of the URL builder\<close>

lemma fixed_operations_no_caller_token:
  "no_caller_token (GetModel i)" "no_caller_token (GetModelVersion i)"
  "no_caller_token (GetPopularModels period limit)" "no_caller_token (GetLatestModels limit)"
  "no_caller_token (GetTopRatedModels period limit)"
  using number_toString_plain [of "CHR ''?''" i]
  by (auto simp: no_caller_token_def reserved_def)

lemma occurrences_op_url:
  assumes "distinct (map fst (op_params opn))" and "CHR ''?'' \<notin> set (op_endpoint opn)"
  shows "occurrences k (href_params (op_url c opn))
           = (case map_of (op_params opn) k of
                None \<Rightarrow> token_occurrences c k
              | Some v \<Rightarrow> value_occurrences v (token_occurrences c k))"
  unfolding op_url_def using assms by (rule occurrences_buildUrl)

lemma twenty: "number_toString 20 = ''20''"
  by (simp add: number_toString_def nat_to_string.simps digit_char_def)

lemma token_without_caller_token:
  assumes "distinct (map fst ps)" and "CHR ''?'' \<notin> set ep"
    and "case map_of ps ''token'' of None \<Rightarrow> True | Some v \<Rightarrow> skipped v"
  shows "occurrences ''token'' (href_params (buildUrl c ep ps))
           = (case configured_token c of None \<Rightarrow> [] | Some t \<Rightarrow> [t])"
  using occurrences_buildUrl [OF assms(1,2), of "''token''" c] assms(3)
  by (auto simp: token_occurrences_def value_occurrences_def skipped_def split: option.splits)

section \<open>Properties of the request layer\<close>

text \<open>
  An operation consults the network once, at the request it builds: two environments that
  answer that request alike give the same outcome.
\<close>

lemma perform_single_request:
  assumes "fetch e (outbound_request c (op_url c opn)) = fetch e' (outbound_request c (op_url c opn))"
    and "zod_message e = zod_message e'"
  shows "perform c e opn = perform c e' opn"
  unfolding perform_def makeRequest_def try_request_def assms ..

section \<open>Properties of the schema layer\<close>

lemmas schema_defs = NSFWLevel_def ModelType_values_def ModelType_def ModelMode_def FileFormat_def
  FileSize_def FloatingPoint_def MetadataSchema_def StatsSchema_def CreatorSchema_def
  FileMetadataSchema_def ModelFileSchema_def ImageSchema_def ModelVersionSchema_def ModelSchema_def
  TagSchema_def

lemma zparse_shape_map_of:
  assumes "map_of obj = map_of obj'"
  shows "zparse_shape shape obj = zparse_shape shape obj'"
proof -
  have g: "obj_get obj k = obj_get obj' k" for k
    by (simp add: obj_get_def assms)
  show ?thesis
    by (induction shape) (simp_all add: g assms cong: option.case_cong)
qed

lemma zparse_shape_fails_iff:
  "(zparse_shape shape obj = None) = (\<exists>f \<in> set shape. zparse (snd f) (obj_get obj (fst f)) = None)"
proof (induction shape)
  case Nil
  show ?case by simp
next
  case (Cons f shape)
  show ?case
  proof (cases "zparse (snd f) (obj_get obj (fst f))")
    case None
    then show ?thesis by simp
  next
    case (Some v)
    then show ?thesis using Cons.IH by (cases "zparse_shape shape obj") auto
  qed
qed

lemma zparse_object_ok_iff:
  "(zparse (ZObject shape) (JObj obj) \<noteq> None)
     = (\<forall>f \<in> set shape. zparse (snd f) (obj_get obj (fst f)) \<noteq> None)"
  using zparse_shape_fails_iff [of shape obj] by simp

lemma zparse_shape_keys:
  "zparse_shape shape obj = Some r \<Longrightarrow> fst ` set r \<subseteq> fst ` set shape"
proof (induction shape arbitrary: r)
  case Nil
  then show ?case by simp
next
  case (Cons f shape)
  from Cons.prems obtain v rs where
    rs: "zparse_shape shape obj = Some rs" and
    r: "r = (if v \<noteq> JUndefined \<or> map_of obj (fst f) \<noteq> None then (fst f, v) # rs else rs)"
    by (auto split: option.splits)
  have "fst ` set rs \<subseteq> fst ` set shape" using Cons.IH [OF rs] .
  then show ?case using r by auto
qed

lemma zparse_shape_field:
  "zparse_shape shape obj = Some r \<Longrightarrow> distinct (map fst shape) \<Longrightarrow> (k, s) \<in> set shape \<Longrightarrow>
   \<exists>v. zparse s (obj_get obj k) = Some v
     \<and> map_of r k = (if v \<noteq> JUndefined \<or> map_of obj k \<noteq> None then Some v else None)"
proof (induction shape arbitrary: r)
  case Nil
  then show ?case by simp
next
  case (Cons f shape)
  from Cons.prems(1) obtain v rs where
    v: "zparse (snd f) (obj_get obj (fst f)) = Some v" and
    rs: "zparse_shape shape obj = Some rs" and
    r: "r = (if v \<noteq> JUndefined \<or> map_of obj (fst f) \<noteq> None then (fst f, v) # rs else rs)"
    by (auto split: option.splits)
  from Cons.prems(2) have d: "distinct (map fst shape)" and nf: "fst f \<notin> fst ` set shape" by auto
  show ?case
  proof (cases "(k, s) = f")
    case True
    have "k \<notin> fst ` set rs"
      using zparse_shape_keys [OF rs] nf True by force
    then have "map_of rs k = None"
      by (simp add: map_of_eq_None_iff)
    then show ?thesis using True v r by auto
  next
    case False
    then have m: "(k, s) \<in> set shape" using Cons.prems(3) by auto
    then have "k \<in> fst ` set shape" by (rule image_eqI [rotated]) simp
    then have "k \<noteq> fst f" using nf by blast
    then show ?thesis using Cons.IH [OF rs d m] r by auto
  qed
qed

lemma obj_get_update: "obj_get (AList.update k v obj) k' = (if k' = k then v else obj_get obj k')"
  by (simp add: obj_get_def update_conv')

lemma obj_get_delete: "obj_get (AList.delete k obj) k' = (if k' = k then JUndefined else obj_get obj k')"
  by (simp add: obj_get_def delete_conv')

lemma image_without_id:
  assumes "zparse ImageSchema (JObj obj) \<noteq> None"
  shows "\<exists>r. zparse ImageSchema (JObj (AList.delete ''id'' obj)) = Some (JObj r)
           \<and> map_of r ''id'' = None"
proof -
  let ?o = "AList.delete ''id'' obj"
  obtain sh where sh: "ImageSchema = ZObject sh" and d: "distinct (map fst sh)"
    and i: "(''id'', ZOptional ZNumber) \<in> set sh"
    by (simp add: ImageSchema_def)
  have "zparse ImageSchema (JObj ?o) \<noteq> None"
    using assms unfolding ImageSchema_def zparse_object_ok_iff
    by (simp add: obj_get_delete)
  then have "zparse_shape sh ?o \<noteq> None"
    unfolding sh by simp
  then obtain r where r: "zparse_shape sh ?o = Some r"
    by auto
  from zparse_shape_field [OF r d i]
  have "map_of r ''id'' = None"
    by (auto simp: obj_get_delete delete_conv')
  then show ?thesis unfolding sh using r by simp
qed

lemma image_nsfwLevel_number:
  "(zparse ImageSchema (JObj (AList.update ''nsfwLevel'' (JNum 2) obj)) \<noteq> None)
     = (zparse ImageSchema (JObj (AList.update ''nsfwLevel'' (JStr ''Mature'') obj)) \<noteq> None)"
  unfolding ImageSchema_def zparse_object_ok_iff
  by (simp add: obj_get_update NSFWLevel_def)

lemma metadata_nextCursor:
  "(zparse MetadataSchema (JObj (AList.update ''nextCursor'' (JStr ''abc123'') obj)) \<noteq> None)
     = (zparse MetadataSchema (JObj (AList.update ''nextCursor'' (JNum 42) obj)) \<noteq> None)"
  unfolding MetadataSchema_def zparse_object_ok_iff
  by (simp add: obj_get_update)

lemma model_type_required:
  assumes "\<not> (\<exists>t \<in> set ModelType_values. map_of obj ''type'' = Some (JStr t))"
  shows "zparse ModelSchema (JObj obj) = None"
proof -
  have "zparse ModelType (obj_get obj ''type'') = None"
    using assms by (auto simp: ModelType_def obj_get_def split: option.splits json.splits)
  then have "\<exists>f \<in> set (case ModelSchema of ZObject sh \<Rightarrow> sh).
      zparse (snd f) (obj_get obj (fst f)) = None"
    by (simp add: ModelSchema_def)
  then have "zparse_shape (case ModelSchema of ZObject sh \<Rightarrow> sh) obj = None"
    by (simp only: zparse_shape_fails_iff)
  then show ?thesis by (simp add: ModelSchema_def)
qed

lemma zparse_array_result: "zparse (ZArray s) v = Some r \<Longrightarrow> \<exists>vs. r = JArr vs"
  by (cases v) auto

lemma model_versions_present:
  assumes "zparse ModelSchema j = Some r"
  shows "\<exists>fs vs. r = JObj fs \<and> map_of fs ''modelVersions'' = Some (JArr vs)"
proof -
  obtain sh where sh: "ModelSchema = ZObject sh" and d: "distinct (map fst sh)"
    and i: "(''modelVersions'', ZArray ModelVersionSchema) \<in> set sh"
    by (simp add: ModelSchema_def)
  from assms obtain obj fs where j: "j = JObj obj" and fs: "zparse_shape sh obj = Some fs"
    and r: "r = JObj fs"
    unfolding sh by (cases j) auto
  from zparse_shape_field [OF fs d i] obtain v where
    v: "zparse (ZArray ModelVersionSchema) (obj_get obj ''modelVersions'') = Some v" and
    m: "map_of fs ''modelVersions''
          = (if v \<noteq> JUndefined \<or> map_of obj ''modelVersions'' \<noteq> None then Some v else None)"
    by blast
  from zparse_array_result [OF v] obtain vs where "v = JArr vs" by blast
  then show ?thesis using m r by simp
qed

section \<open>The claims\<close>

subsection \<open>C1: the query of a list operation\<close>

text \<open>
  Claim C1, as stated, fails for the key \<open>token\<close> of a client with a configured
  token: the bag \<open>{token: null}\<close> passed to "list models" leaves the configured token
  in the query, so a key whose value is \<open>null\<close> is present in the URL.
\<close>

theorem C1_counterexample:
  "map_of [(''token'', Null)] ''token'' = Some Null
   \<and> ''token'' \<in> fst ` set (href_params
        (op_url (CivitaiClient (Some ''k'')) (GetModels [(''token'', Null)])))
   \<and> op_url (CivitaiClient (Some ''k'')) (GetModels [(''token'', Null)])
     = ''https://civitai.com/api/v1/models?token=k''"
proof (intro conjI)
  show "map_of [(''token'', Null)] ''token'' = Some Null"
    by simp
  have "href_params (op_url (CivitaiClient (Some ''k'')) (GetModels [(''token'', Null)]))
          = [(''token'', ''k'')]"
    unfolding op_url_def href_params_buildUrl by (simp add: url_eval)
  then show "''token'' \<in> fst ` set (href_params
        (op_url (CivitaiClient (Some ''k'')) (GetModels [(''token'', Null)])))"
    by simp
  show "op_url (CivitaiClient (Some ''k'')) (GetModels [(''token'', Null)])
     = ''https://civitai.com/api/v1/models?token=k''"
    by (simp add: url_eval)
qed

text \<open>
  Claim C1 (amended). For every parameter bag (its keys pairwise distinct) that a list
  operation passes to the URL builder, and every entry of the bag: a key other than
  \<open>token\<close>, or any key when no token is configured, is absent from the query when its
  value is \<open>undefined\<close>, \<open>null\<close> or the empty string, and occurs once per element, in the
  order of the array, when its value is an array; a key whose value is a number, a boolean or
  a non-empty string occurs exactly once, with the stringified value. With a configured
  token, the key \<open>token\<close> keeps the configured token when the bag's value is skipped, and
  has it before the elements when the bag's value is an array.
\<close>

theorem C1_query_of_list_operations:
  assumes "distinct (map fst ps)" and "(k, v) \<in> set ps" and "opn \<in> set (list_operations ps)"
  shows
    "(skipped v \<and> (k \<noteq> ''token'' \<or> configured_token c = None)
        \<longrightarrow> k \<notin> fst ` set (href_params (op_url c opn)))
     \<and> (v = Arr vs \<and> (k \<noteq> ''token'' \<or> configured_token c = None)
        \<longrightarrow> occurrences k (href_params (op_url c opn)) = map toString vs)
     \<and> (v = Scalar s \<and> s \<noteq> Str []
        \<longrightarrow> occurrences k (href_params (op_url c opn)) = [toString s])
     \<and> (skipped v \<and> k = ''token'' \<and> configured_token c = Some t
        \<longrightarrow> occurrences k (href_params (op_url c opn)) = [t])
     \<and> (v = Arr vs \<and> k = ''token'' \<and> configured_token c = Some t
        \<longrightarrow> occurrences k (href_params (op_url c opn)) = t # map toString vs)"
proof -
  from assms(3) have e: "CHR ''?'' \<notin> set (op_endpoint opn)" and p: "op_params opn = ps"
    using op_endpoint_list by blast+
  from assms(1,2) have m: "map_of ps k = Some v" by simp
  have o: "occurrences k (href_params (op_url c opn)) = value_occurrences v (token_occurrences c k)"
    using occurrences_buildUrl [OF assms(1) e, of k c] m by (simp add: op_url_def p)
  have a: "k \<noteq> ''token'' \<or> configured_token c = None \<Longrightarrow> token_occurrences c k = []"
    by (auto simp: token_occurrences_def)
  have b: "k = ''token'' \<and> configured_token c = Some t \<Longrightarrow> token_occurrences c k = [t]"
    by (auto simp: token_occurrences_def)
  show ?thesis
    unfolding occurrences_empty_iff [symmetric] o
    using a b by (auto simp: value_occurrences_def skipped_def)
qed

text \<open>
  Claim C1, witness: a bag with a \<open>null\<close> page, an array of two types and a numeric limit.
\<close>

theorem C1_query_of_list_operations_witness:
  "''page'' \<notin> fst ` set (href_params (op_url (CivitaiClient (Some ''k''))
        (GetModels [(''page'', Null), (''types'', Arr [Str ''LORA'', Str ''Poses'']), (''limit'', Scalar (Num 5))])))
   \<and> occurrences ''types'' (href_params (op_url (CivitaiClient (Some ''k''))
        (GetModels [(''page'', Null), (''types'', Arr [Str ''LORA'', Str ''Poses'']), (''limit'', Scalar (Num 5))])))
      = [''LORA'', ''Poses'']
   \<and> occurrences ''limit'' (href_params (op_url (CivitaiClient (Some ''k''))
        (GetModels [(''page'', Null), (''types'', Arr [Str ''LORA'', Str ''Poses'']), (''limit'', Scalar (Num 5))])))
      = [''5'']"
proof -
  let ?ps = "[(''page'', Null), (''types'', Arr [Str ''LORA'', Str ''Poses'']), (''limit'', Scalar (Num 5))]"
  let ?c = "CivitaiClient (Some ''k'')"
  have d: "distinct (map fst ?ps)" by simp
  have l: "GetModels ?ps \<in> set (list_operations ?ps)" by (simp add: list_operations_def)
  have n: "number_toString 5 = ''5''" by (simp add: number_toString_def nat_to_string.simps digit_char_def)
  have 1: "(''page'', Null) \<in> set ?ps" by simp
  have 2: "(''types'', Arr [Str ''LORA'', Str ''Poses'']) \<in> set ?ps" by simp
  have 3: "(''limit'', Scalar (Num 5)) \<in> set ?ps" by simp
  show ?thesis
    using C1_query_of_list_operations [OF d 1 l, where c = ?c]
      C1_query_of_list_operations [OF d 2 l, where c = ?c and vs = "[Str ''LORA'', Str ''Poses'']"]
      C1_query_of_list_operations [OF d 3 l, where c = ?c and s = "Num 5"] n
    by (simp add: skipped_def)
qed

subsection \<open>C2: defaults of the convenience compositions\<close>

text \<open>
  Claim C2, as stated, fails for the by-tag composition: with no options it requests
  \<open>/models?tag=anime\<close>, with neither \<open>nsfw=false\<close> nor \<open>limit=20\<close>.
\<close>

theorem C2_counterexample:
  "op_url (CivitaiClient None) (SearchModelsByTag ''anime'' [])
     = ''https://civitai.com/api/v1/models?tag=anime''
   \<and> href_params (op_url (CivitaiClient None) (SearchModelsByTag ''anime'' []))
     = [(''tag'', ''anime'')]
   \<and> occurrences ''nsfw'' (href_params (op_url (CivitaiClient None) (SearchModelsByTag ''anime'' [])))
     = []"
proof (intro conjI)
  show "op_url (CivitaiClient None) (SearchModelsByTag ''anime'' [])
     = ''https://civitai.com/api/v1/models?tag=anime''"
    by (simp add: url_eval)
  show h: "href_params (op_url (CivitaiClient None) (SearchModelsByTag ''anime'' []))
     = [(''tag'', ''anime'')]"
    unfolding op_url_def href_params_buildUrl by (simp add: url_eval)
  show "occurrences ''nsfw'' (href_params (op_url (CivitaiClient None) (SearchModelsByTag ''anime'' [])))
     = []"
    unfolding h by (simp add: occurrences_def)
qed

text \<open>
  Claim C2 (amended). The three utility compositions always send \<open>nsfw=false\<close> and their
  sort order, send the caller's limit or 20 when the caller gives none, and send the
  default period (\<open>Week\<close> for most-downloaded, \<open>AllTime\<close> for highest-rated) when the
  caller gives none; newest sends no period. The by-tag, by-creator and by-type
  compositions add no NSFW default: their URL carries exactly the \<open>nsfw\<close> parameter that
  "list models" sends for the caller's options alone.
\<close>

theorem C2_defaults_of_compositions:
  "occurrences ''nsfw'' (href_params (op_url c (GetPopularModels period limit))) = [''false'']
   \<and> occurrences ''sort'' (href_params (op_url c (GetPopularModels period limit))) = [''Most Downloaded'']
   \<and> occurrences ''limit'' (href_params (op_url c (GetPopularModels period None))) = [''20'']
   \<and> occurrences ''limit'' (href_params (op_url c (GetPopularModels period (Some l)))) = [number_toString l]
   \<and> occurrences ''period'' (href_params (op_url c (GetPopularModels None limit))) = [''Week'']
   \<and> occurrences ''nsfw'' (href_params (op_url c (GetLatestModels limit))) = [''false'']
   \<and> occurrences ''sort'' (href_params (op_url c (GetLatestModels limit))) = [''Newest'']
   \<and> occurrences ''limit'' (href_params (op_url c (GetLatestModels None))) = [''20'']
   \<and> occurrences ''limit'' (href_params (op_url c (GetLatestModels (Some l)))) = [number_toString l]
   \<and> occurrences ''period'' (href_params (op_url c (GetLatestModels limit))) = []
   \<and> occurrences ''nsfw'' (href_params (op_url c (GetTopRatedModels period limit))) = [''false'']
   \<and> occurrences ''sort'' (href_params (op_url c (GetTopRatedModels period limit))) = [''Highest Rated'']
   \<and> occurrences ''limit'' (href_params (op_url c (GetTopRatedModels period None))) = [''20'']
   \<and> occurrences ''limit'' (href_params (op_url c (GetTopRatedModels period (Some l)))) = [number_toString l]
   \<and> occurrences ''period'' (href_params (op_url c (GetTopRatedModels None limit))) = [''AllTime'']
   \<and> (distinct (map fst options) \<longrightarrow>
        occurrences ''nsfw'' (href_params (op_url c (SearchModelsByTag tag options)))
          = occurrences ''nsfw'' (href_params (op_url c (GetModels options)))
        \<and> occurrences ''nsfw'' (href_params (op_url c (SearchModelsByCreator username options)))
          = occurrences ''nsfw'' (href_params (op_url c (GetModels options)))
        \<and> occurrences ''nsfw'' (href_params (op_url c (GetModelsByType type options)))
          = occurrences ''nsfw'' (href_params (op_url c (GetModels options))))"
proof -
  have f: "occurrences k (href_params (op_url c opn))
           = (case map_of (op_params opn) k of
                None \<Rightarrow> token_occurrences c k
              | Some v \<Rightarrow> value_occurrences v (token_occurrences c k))"
    if "opn = GetPopularModels p lm \<or> opn = GetLatestModels lm \<or> opn = GetTopRatedModels p lm"
    for k opn p lm
    using that by (intro occurrences_op_url) auto
  have s: "occurrences ''nsfw'' (href_params (op_url c opn))
             = occurrences ''nsfw'' (href_params (op_url c (GetModels options)))"
    if d: "distinct (map fst options)" and o: "op_params opn = obj_spread [(k, v)] options"
      and e: "op_endpoint opn = ''/models''" and k: "k \<noteq> ''nsfw''" for opn k v
  proof -
    have "distinct (map fst (op_params opn))"
      unfolding o by (rule distinct_obj_spread) simp
    moreover have "map_of (op_params opn) ''nsfw'' = map_of options ''nsfw''"
      unfolding o using k by (simp add: map_of_obj_spread [OF d] split: option.split)
    ultimately show ?thesis
      using occurrences_op_url [of opn "''nsfw''" c] occurrences_op_url [of "GetModels options" "''nsfw''" c] d e
      by simp
  qed
  show ?thesis
    using s [of "SearchModelsByTag tag options" "''tag''" "Scalar (Str tag)"]
      s [of "SearchModelsByCreator username options" "''username''" "Scalar (Str username)"]
      s [of "GetModelsByType type options" "''types''" "Arr [Str type]"]
    by (simp add: f [of _ period limit] f [of _ period None] f [of _ period "Some l"]
        f [of _ None limit] token_occurrences_def value_occurrences_def twenty)
qed

text \<open>
  Claim C2, witness: the defaults of the utility compositions, and a by-tag search whose
  caller asks for NSFW content.
\<close>

theorem C2_defaults_of_compositions_witness:
  "occurrences ''nsfw'' (href_params (op_url (CivitaiClient None) (GetPopularModels None None)))
     = [''false'']
   \<and> occurrences ''limit'' (href_params (op_url (CivitaiClient None) (GetPopularModels None None)))
     = [''20'']
   \<and> occurrences ''period'' (href_params (op_url (CivitaiClient None) (GetPopularModels None None)))
     = [''Week'']
   \<and> occurrences ''period'' (href_params (op_url (CivitaiClient None) (GetTopRatedModels None None)))
     = [''AllTime'']
   \<and> occurrences ''period'' (href_params (op_url (CivitaiClient None) (GetLatestModels None)))
     = []
   \<and> occurrences ''nsfw'' (href_params (op_url (CivitaiClient None)
         (SearchModelsByTag ''anime'' [(''nsfw'', Scalar (Bool True))])))
      = occurrences ''nsfw'' (href_params (op_url (CivitaiClient None)
         (GetModels [(''nsfw'', Scalar (Bool True))])))"
proof -
  have d: "distinct (map fst [(''nsfw'', Scalar (Bool True))])" by simp
  show ?thesis
    using C2_defaults_of_compositions [where c = "CivitaiClient None" and period = None
        and limit = None and l = 5 and options = "[(''nsfw'', Scalar (Bool True))]"
        and tag = "''anime''" and username = "''alice''" and type = "''LORA''"] d
    by simp
qed

subsection \<open>C3: the token in the URL and in the header\<close>

text \<open>
  Claim C3, as stated, fails when the caller hands over a token of its own. With a
  \<open>token\<close> entry in the bag and no token configured, the URL of "list models" still
  carries \<open>token=zzz\<close>; with the token \<open>k\<close> configured it carries \<open>zzz\<close> and not
  \<open>k\<close>. A by-hash string is put into the path as it is, so a query inside it reaches
  the URL as well.
\<close>

theorem C3_counterexample:
  "configured_token (CivitaiClient None) = None
   \<and> op_url (CivitaiClient None) (GetModels [(''token'', Scalar (Str ''zzz''))])
       = ''https://civitai.com/api/v1/models?token=zzz''
   \<and> href_params (op_url (CivitaiClient None) (GetModels [(''token'', Scalar (Str ''zzz''))]))
       = [(''token'', ''zzz'')]
   \<and> op_url (CivitaiClient (Some ''k'')) (GetModels [(''token'', Scalar (Str ''zzz''))])
       = ''https://civitai.com/api/v1/models?token=zzz''
   \<and> href_params (op_url (CivitaiClient None) (GetModelVersionByHash ''ab?token=zz''))
       = [(''token'', ''zz'')]"
proof (intro conjI)
  show "configured_token (CivitaiClient None) = None"
    by (simp add: configured_token_def CivitaiClient_def)
  show "op_url (CivitaiClient None) (GetModels [(''token'', Scalar (Str ''zzz''))])
       = ''https://civitai.com/api/v1/models?token=zzz''"
    by (simp add: url_eval)
  show "href_params (op_url (CivitaiClient None) (GetModels [(''token'', Scalar (Str ''zzz''))]))
       = [(''token'', ''zzz'')]"
    unfolding op_url_def href_params_buildUrl by (simp add: url_eval)
  show "op_url (CivitaiClient (Some ''k'')) (GetModels [(''token'', Scalar (Str ''zzz''))])
       = ''https://civitai.com/api/v1/models?token=zzz''"
    by (simp add: url_eval)
  show "href_params (op_url (CivitaiClient None) (GetModelVersionByHash ''ab?token=zz''))
       = [(''token'', ''zz'')]"
    unfolding op_url_def href_params_buildUrl
    by (simp add: url_eval parse_pair_def form_decode_def)
qed

text \<open>
  Claim C3 (amended). For every operation to which the caller hands no token of its own
  (no effective \<open>token\<close> entry in the bag, no query inside a by-hash string): when a
  non-empty token is configured, the URL has exactly one \<open>token\<close> query parameter, the
  configured token, and the request, sent to that URL, carries the header
  \<open>Authorization: Bearer\<close> with the same token; when none is configured the URL has no
  \<open>token\<close> parameter and the request no \<open>Authorization\<close> header. The header depends on
  the configuration alone. The download URL follows the same rule.
\<close>

theorem C3_token_in_url_and_header:
  assumes "no_caller_token opn"
  shows
    "occurrences ''token'' (href_params (op_url c opn))
       = (case configured_token c of None \<Rightarrow> [] | Some t \<Rightarrow> [t])
     \<and> req_url (outbound_request c (op_url c opn)) = op_url c opn
     \<and> map_of (req_headers (outbound_request c (op_url c opn))) ''Authorization''
       = (case configured_token c of None \<Rightarrow> None | Some t \<Rightarrow> Some (''Bearer '' @ t))
     \<and> occurrences ''token'' (href_params (getDownloadUrl c n))
       = (case configured_token c of None \<Rightarrow> [] | Some t \<Rightarrow> [t])"
proof (intro conjI)
  show "occurrences ''token'' (href_params (op_url c opn))
       = (case configured_token c of None \<Rightarrow> [] | Some t \<Rightarrow> [t])"
    using assms unfolding no_caller_token_def op_url_def
    by (intro token_without_caller_token) simp_all
  show "req_url (outbound_request c (op_url c opn)) = op_url c opn"
    by (simp add: outbound_request_def)
  show "map_of (req_headers (outbound_request c (op_url c opn))) ''Authorization''
       = (case configured_token c of None \<Rightarrow> None | Some t \<Rightarrow> Some (''Bearer '' @ t))"
    by (simp add: outbound_request_def request_headers_def split: option.split)
  have "CHR ''?'' \<notin> set (''/download/models/'' @ number_toString n)"
    using number_toString_plain [of "CHR ''?''" n] by (auto simp: reserved_def)
  then show "occurrences ''token'' (href_params (getDownloadUrl c n))
       = (case configured_token c of None \<Rightarrow> [] | Some t \<Rightarrow> [t])"
    unfolding getDownloadUrl_def by (intro token_without_caller_token) simp_all
qed

text \<open>
  Claim C3, witness: a by-hash lookup of a client with the token \<open>abc\<close>, and a by-tag search
  of a client with no token.
\<close>

theorem C3_token_in_url_and_header_witness:
  "occurrences ''token'' (href_params (op_url (CivitaiClient (Some ''abc''))
        (GetModelVersionByHash ''0A1B2C''))) = [''abc'']
   \<and> map_of (req_headers (outbound_request (CivitaiClient (Some ''abc''))
        (op_url (CivitaiClient (Some ''abc'')) (GetModelVersionByHash ''0A1B2C'')))) ''Authorization''
      = Some ''Bearer abc''
   \<and> occurrences ''token'' (href_params (op_url (CivitaiClient None)
        (SearchModelsByTag ''anime'' [(''limit'', Scalar (Num 5))]))) = []
   \<and> map_of (req_headers (outbound_request (CivitaiClient None)
        (op_url (CivitaiClient None) (SearchModelsByTag ''anime'' [(''limit'', Scalar (Num 5))]))))
        ''Authorization'' = None"
proof -
  have a: "no_caller_token (GetModelVersionByHash ''0A1B2C'')"
    by (simp add: no_caller_token_def)
  have b: "no_caller_token (SearchModelsByTag ''anime'' [(''limit'', Scalar (Num 5))])"
    by (simp add: no_caller_token_def obj_spread_def)
  have k: "configured_token (CivitaiClient (Some ''abc'')) = Some ''abc''"
    "configured_token (CivitaiClient None) = None"
    by (simp_all add: configured_token_def CivitaiClient_def)
  show ?thesis
    using C3_token_in_url_and_header [OF a, of "CivitaiClient (Some ''abc'')"]
      C3_token_in_url_and_header [OF b, of "CivitaiClient None"] k
    by simp
qed

subsection \<open>C4: the download URL\<close>

text \<open>
  Claim C4. "Build download URL" is a total function of the client and the version id: it
  takes no network and has no failure value. For the version id 12345 and no token it
  returns a URL with the path segment \<open>download/models/12345\<close> and no query; with the
  token \<open>abc\<close> it returns the same URL followed by \<open>?token=abc\<close>. In general the URL
  is the base, the path, the decimal id and, for a configured token, the encoded token.
\<close>

theorem C4_download_url:
  "getDownloadUrl (CivitaiClient None) 12345 = ''https://civitai.com/api/v1/download/models/12345''
   \<and> href_params (getDownloadUrl (CivitaiClient None) 12345) = []
   \<and> getDownloadUrl (CivitaiClient (Some ''abc'')) 12345
       = ''https://civitai.com/api/v1/download/models/12345?token=abc''
   \<and> href_params (getDownloadUrl (CivitaiClient (Some ''abc'')) 12345) = [(''token'', ''abc'')]
   \<and> getDownloadUrl c n
       = ''https://civitai.com/api/v1/download/models/'' @ number_toString n
         @ (case configured_token c of None \<Rightarrow> [] | Some t \<Rightarrow> ''?token='' @ form_encode t)"
proof (intro conjI)
  show "getDownloadUrl (CivitaiClient None) 12345 = ''https://civitai.com/api/v1/download/models/12345''"
    by (simp add: getDownloadUrl_def url_eval)
  show "href_params (getDownloadUrl (CivitaiClient None) 12345) = []"
    unfolding getDownloadUrl_def href_params_buildUrl by (simp add: url_eval)
  show "getDownloadUrl (CivitaiClient (Some ''abc'')) 12345
       = ''https://civitai.com/api/v1/download/models/12345?token=abc''"
    by (simp add: getDownloadUrl_def url_eval)
  show "href_params (getDownloadUrl (CivitaiClient (Some ''abc'')) 12345) = [(''token'', ''abc'')]"
    unfolding getDownloadUrl_def href_params_buildUrl by (simp add: url_eval)
  have p: "CHR ''?'' \<notin> set (baseUrl @ ''/download/models/'' @ number_toString n)"
    "CHR ''#'' \<notin> set (baseUrl @ ''/download/models/'' @ number_toString n)"
    using number_toString_plain [of "CHR ''?''" n] number_toString_plain [of "CHR ''#''" n]
    by (auto simp: reserved_def baseUrl_def)
  show "getDownloadUrl c n
       = ''https://civitai.com/api/v1/download/models/'' @ number_toString n
         @ (case configured_token c of None \<Rightarrow> [] | Some t \<Rightarrow> ''?token='' @ form_encode t)"
    unfolding getDownloadUrl_def buildUrl_def buildUrlObj_def Let_def newURL_plain [OF p]
    by (simp add: url_toString_def url_set_def sp_update_def sp_serialize_def baseUrl_def
        form_encode_def form_encode_byte_def form_safe_def split: option.split)
qed

subsection \<open>C5: HTTP failures\<close>

text \<open>
  Claim C5. For every operation: when the single outbound call completes with a response
  whose status is not in 200..299, the operation fails with the message
  \<open>API request failed: HTTP <status>: <status text>\<close>. The failure is decided by the
  status alone: the body is not decoded and no schema is consulted.
\<close>

theorem C5_http_failure:
  assumes "fetch e (outbound_request c (op_url c opn)) = Resolved r" and "\<not> ok r"
  shows "perform c e opn
           = Inl (JsError (''API request failed: HTTP '' @ nat_to_string (status r) @ '': ''
                            @ statusText r))"
  using assms by (simp add: perform_def makeRequest_def try_request_def error_message_def)

text \<open>Claim C5, witness: a 429 response to "list tags".\<close>

theorem C5_http_failure_witness:
  "perform (CivitaiClient None)
     \<lparr>fetch = (\<lambda>q. Resolved \<lparr>status = 429, statusText = ''Too Many Requests'',
                               json_body = Inr JNull\<rparr>),
      zod_message = (\<lambda>s v. ''invalid'')\<rparr>
     (GetTags [])
   = Inl (JsError ''API request failed: HTTP 429: Too Many Requests'')"
proof -
  let ?r = "\<lparr>status = 429, statusText = ''Too Many Requests'', json_body = Inr JNull\<rparr>"
  let ?e = "\<lparr>fetch = (\<lambda>q. Resolved ?r), zod_message = (\<lambda>s v. ''invalid'')\<rparr>"
  have a: "fetch ?e (outbound_request (CivitaiClient None) (op_url (CivitaiClient None) (GetTags [])))
             = Resolved ?r"
    by simp
  have b: "\<not> ok ?r" by (simp add: ok_def)
  have n: "nat_to_string 429 = ''429''" by (simp add: nat_to_string.simps digit_char_def)
  show ?thesis using C5_http_failure [OF a b] n by simp
qed

subsection \<open>C6: transport failures\<close>

text \<open>
  Claim C6. For every operation: an exception of the outbound call, an \<open>Error\<close> with
  message \<open>m\<close>, is re-raised as the failure \<open>API request failed: m\<close>; and every failure
  of an operation, whatever its cause, is an \<open>Error\<close> whose message starts with
  \<open>API request failed: \<close>.
\<close>

theorem C6_uniform_failure:
  "(fetch e (outbound_request c (op_url c opn)) = Rejected (JsError m)
      \<longrightarrow> perform c e opn = Inl (JsError (''API request failed: '' @ m)))
   \<and> (perform c e opn = Inl x \<longrightarrow> (\<exists>m'. x = JsError (''API request failed: '' @ m')))"
  by (auto simp: perform_def makeRequest_def try_request_def error_message_def
      split: sum.splits)

text \<open>Claim C6, witness: a DNS failure of "list creators".\<close>

theorem C6_uniform_failure_witness:
  "perform (CivitaiClient None)
     \<lparr>fetch = (\<lambda>q. Rejected (JsError ''getaddrinfo ENOTFOUND civitai.com'')),
      zod_message = (\<lambda>s v. ''invalid'')\<rparr>
     (GetCreators [])
   = Inl (JsError ''API request failed: getaddrinfo ENOTFOUND civitai.com'')
   \<and> (\<exists>m'. JsError ''API request failed: getaddrinfo ENOTFOUND civitai.com''
              = JsError (''API request failed: '' @ m'))"
proof -
  let ?e = "\<lparr>fetch = (\<lambda>q. Rejected (JsError ''getaddrinfo ENOTFOUND civitai.com'')),
      zod_message = (\<lambda>s v. ''invalid'')\<rparr>"
  have a: "fetch ?e (outbound_request (CivitaiClient None) (op_url (CivitaiClient None) (GetCreators [])))
             = Rejected (JsError ''getaddrinfo ENOTFOUND civitai.com'')"
    by simp
  from C6_uniform_failure [of ?e "CivitaiClient None" "GetCreators []"
      "''getaddrinfo ENOTFOUND civitai.com''"
      "JsError ''API request failed: getaddrinfo ENOTFOUND civitai.com''"] a
  show ?thesis by simp
qed

subsection \<open>C7: tolerated upstream inconsistencies\<close>

text \<open>
  Claim C7. An Image object that validates still validates with its \<open>id\<close> removed, and
  the result has no \<open>id\<close>; the minimal Image object, which has no \<open>id\<close>, validates.
  An Image object with \<open>nsfwLevel\<close> set to the number 2 validates exactly when it does
  with \<open>nsfwLevel\<close> set to \<open>"Mature"\<close>, and the minimal Image validates with either, the
  value kept as it is. A Metadata object with \<open>nextCursor\<close> set to \<open>"abc123"\<close>
  validates exactly when it does with 42, and both validate on their own.
\<close>

theorem C7_tolerated_inconsistencies:
  "(zparse ImageSchema (JObj obj) \<noteq> None \<longrightarrow>
      (\<exists>r. zparse ImageSchema (JObj (AList.delete ''id'' obj)) = Some (JObj r)
            \<and> map_of r ''id'' = None))
   \<and> zparse ImageSchema (JObj (minimal_image u h w ht)) = Some (JObj (minimal_image u h w ht))
   \<and> ((zparse ImageSchema (JObj (AList.update ''nsfwLevel'' (JNum 2) obj)) \<noteq> None)
        = (zparse ImageSchema (JObj (AList.update ''nsfwLevel'' (JStr ''Mature'') obj)) \<noteq> None))
   \<and> zparse ImageSchema (JObj (minimal_image u h w ht @ [(''nsfwLevel'', JNum 2)]))
        = Some (JObj (minimal_image u h w ht @ [(''nsfwLevel'', JNum 2)]))
   \<and> zparse ImageSchema (JObj (minimal_image u h w ht @ [(''nsfwLevel'', JStr ''Mature'')]))
        = Some (JObj (minimal_image u h w ht @ [(''nsfwLevel'', JStr ''Mature'')]))
   \<and> ((zparse MetadataSchema (JObj (AList.update ''nextCursor'' (JStr ''abc123'') mobj)) \<noteq> None)
        = (zparse MetadataSchema (JObj (AList.update ''nextCursor'' (JNum 42) mobj)) \<noteq> None))
   \<and> zparse MetadataSchema (JObj [(''nextCursor'', JStr ''abc123'')])
        = Some (JObj [(''nextCursor'', JStr ''abc123'')])
   \<and> zparse MetadataSchema (JObj [(''nextCursor'', JNum 42)])
        = Some (JObj [(''nextCursor'', JNum 42)])"
proof (intro conjI)
  show "zparse ImageSchema (JObj obj) \<noteq> None \<longrightarrow>
      (\<exists>r. zparse ImageSchema (JObj (AList.delete ''id'' obj)) = Some (JObj r)
            \<and> map_of r ''id'' = None)"
    using image_without_id by blast
  show "zparse ImageSchema (JObj (minimal_image u h w ht)) = Some (JObj (minimal_image u h w ht))"
    by (simp add: schema_defs minimal_image_def obj_get_def)
  show "(zparse ImageSchema (JObj (AList.update ''nsfwLevel'' (JNum 2) obj)) \<noteq> None)
        = (zparse ImageSchema (JObj (AList.update ''nsfwLevel'' (JStr ''Mature'') obj)) \<noteq> None)"
    by (rule image_nsfwLevel_number)
  show "zparse ImageSchema (JObj (minimal_image u h w ht @ [(''nsfwLevel'', JNum 2)]))
        = Some (JObj (minimal_image u h w ht @ [(''nsfwLevel'', JNum 2)]))"
    by (simp add: schema_defs minimal_image_def obj_get_def)
  show "zparse ImageSchema (JObj (minimal_image u h w ht @ [(''nsfwLevel'', JStr ''Mature'')]))
        = Some (JObj (minimal_image u h w ht @ [(''nsfwLevel'', JStr ''Mature'')]))"
    by (simp add: schema_defs minimal_image_def obj_get_def)
  show "(zparse MetadataSchema (JObj (AList.update ''nextCursor'' (JStr ''abc123'') mobj)) \<noteq> None)
        = (zparse MetadataSchema (JObj (AList.update ''nextCursor'' (JNum 42) mobj)) \<noteq> None)"
    by (rule metadata_nextCursor)
  show "zparse MetadataSchema (JObj [(''nextCursor'', JStr ''abc123'')])
        = Some (JObj [(''nextCursor'', JStr ''abc123'')])"
    by (simp add: schema_defs obj_get_def)
  show "zparse MetadataSchema (JObj [(''nextCursor'', JNum 42)])
        = Some (JObj [(''nextCursor'', JNum 42)])"
    by (simp add: schema_defs obj_get_def)
qed

text \<open>Claim C7, witness: an Image object with the id 7, decoded without it.\<close>

theorem C7_tolerated_inconsistencies_witness:
  "\<exists>r. zparse ImageSchema
          (JObj (AList.delete ''id'' ((''id'', JNum 7) # minimal_image ''u'' ''h'' 640 480)))
        = Some (JObj r) \<and> map_of r ''id'' = None"
proof -
  have "zparse ImageSchema (JObj ((''id'', JNum 7) # minimal_image ''u'' ''h'' 640 480)) \<noteq> None"
    by (simp add: schema_defs minimal_image_def obj_get_def)
  then show ?thesis
    using C7_tolerated_inconsistencies [of "(''id'', JNum 7) # minimal_image ''u'' ''h'' 640 480"]
    by blast
qed

subsection \<open>C8: the type and the versions of a Model\<close>

text \<open>
  Claim C8. Validation of a Model object fails when it has no \<open>type\<close> field and when its
  \<open>type\<close> is not a string of the enumeration; and every validated Model is an object
  with a \<open>modelVersions\<close> field that is an array.
\<close>

theorem C8_model_type_and_versions:
  "(map_of obj ''type'' = None \<longrightarrow> zparse ModelSchema (JObj obj) = None)
   \<and> (map_of obj ''type'' = Some v \<and> v \<notin> JStr ` set ModelType_values
        \<longrightarrow> zparse ModelSchema (JObj obj) = None)
   \<and> (zparse ModelSchema j = Some r
        \<longrightarrow> (\<exists>fs vs. r = JObj fs \<and> map_of fs ''modelVersions'' = Some (JArr vs)))"
proof (intro conjI impI)
  assume "map_of obj ''type'' = None"
  then show "zparse ModelSchema (JObj obj) = None"
    by (intro model_type_required) simp
next
  assume "map_of obj ''type'' = Some v \<and> v \<notin> JStr ` set ModelType_values"
  then show "zparse ModelSchema (JObj obj) = None"
    by (intro model_type_required) auto
next
  assume "zparse ModelSchema j = Some r"
  then show "\<exists>fs vs. r = JObj fs \<and> map_of fs ''modelVersions'' = Some (JArr vs)"
    by (rule model_versions_present)
qed

text \<open>
  Claim C8, witness: an object with no type, the minimal Model with the type \<open>LoCon\<close>,
  and the minimal Model itself.
\<close>

theorem C8_model_type_and_versions_witness:
  "zparse ModelSchema (JObj [(''id'', JNum 1), (''name'', JStr ''n'')]) = None
   \<and> zparse ModelSchema (JObj (AList.update ''type'' (JStr ''LoCon'')
        (minimal_model 1 ''n'' ''d'' ''LORA'' False ''u''))) = None
   \<and> (\<exists>fs vs. JObj (minimal_model 1 ''n'' ''d'' ''LORA'' False ''u'') = JObj fs
        \<and> map_of fs ''modelVersions'' = Some (JArr vs))"
proof -
  have a: "map_of [(''id'', JNum 1), (''name'', JStr ''n'')] ''type'' = None" by simp
  have b: "map_of (AList.update ''type'' (JStr ''LoCon'')
        (minimal_model 1 ''n'' ''d'' ''LORA'' False ''u'')) ''type'' = Some (JStr ''LoCon'')
      \<and> JStr ''LoCon'' \<notin> JStr ` set ModelType_values"
    by (auto simp: minimal_model_def ModelType_values_def)
  have c: "zparse ModelSchema (JObj (minimal_model 1 ''n'' ''d'' ''LORA'' False ''u''))
      = Some (JObj (minimal_model 1 ''n'' ''d'' ''LORA'' False ''u''))"
    by (simp add: schema_defs minimal_model_def obj_get_def)
  note 1 = C8_model_type_and_versions [THEN conjunct1, THEN mp, OF a]
  note 2 = C8_model_type_and_versions [THEN conjunct2, THEN conjunct1, THEN mp, OF b]
  note 3 = C8_model_type_and_versions [THEN conjunct2, THEN conjunct2, THEN mp, OF c]
  show ?thesis
    by (intro conjI) (rule 1, rule 2, rule 3)
qed

subsection \<open>C9: round trip of the minimal Model\<close>

text \<open>
  Claim C9. Round trip: an object with exactly the fields of the minimal Model (id, name,
  description, a type of the enumeration, nsfw, no tags, mode \<open>null\<close>, a creator with a
  username, no versions), in any order of its keys, validates, and the result is the
  minimal Model with the same field values.
\<close>

theorem C9_minimal_model_roundtrip:
  assumes "t \<in> set ModelType_values" and "map_of obj = map_of (minimal_model i n d t b u)"
  shows "zparse ModelSchema (JObj obj) = Some (JObj (minimal_model i n d t b u))"
proof -
  have "zparse ModelSchema (JObj (minimal_model i n d t b u))
          = Some (JObj (minimal_model i n d t b u))"
    using assms(1) by (simp add: schema_defs minimal_model_def obj_get_def)
  moreover have "zparse ModelSchema (JObj obj) = zparse ModelSchema (JObj (minimal_model i n d t b u))"
    using zparse_shape_map_of [OF assms(2)] by (simp add: ModelSchema_def)
  ultimately show ?thesis by simp
qed

text \<open>Claim C9, witness: the minimal Model with its keys in reverse order.\<close>

theorem C9_minimal_model_roundtrip_witness:
  "zparse ModelSchema (JObj (rev (minimal_model 7 ''name'' ''text'' ''Checkpoint'' False ''alice'')))
     = Some (JObj (minimal_model 7 ''name'' ''text'' ''Checkpoint'' False ''alice''))"
proof -
  have t: "''Checkpoint'' \<in> set ModelType_values" by (simp add: ModelType_values_def)
  have m: "map_of (rev (minimal_model 7 ''name'' ''text'' ''Checkpoint'' False ''alice''))
             = map_of (minimal_model 7 ''name'' ''text'' ''Checkpoint'' False ''alice'')"
    by (simp add: minimal_model_def fun_eq_iff)
  show ?thesis using C9_minimal_model_roundtrip [OF t m] .
qed

subsection \<open>C10: a token in the bag\<close>

text \<open>
  Claim C10, as stated, fails for a \<open>token\<close> entry whose value is an array: the elements
  are appended, so the URL carries the configured token first and the bag's value after it.
\<close>

theorem C10_counterexample:
  "op_url (CivitaiClient (Some ''k'')) (GetModels [(''token'', Arr [Str ''x''])])
     = ''https://civitai.com/api/v1/models?token=k&token=x''
   \<and> href_params (op_url (CivitaiClient (Some ''k'')) (GetModels [(''token'', Arr [Str ''x''])]))
     = [(''token'', ''k''), (''token'', ''x'')]"
proof
  show "op_url (CivitaiClient (Some ''k'')) (GetModels [(''token'', Arr [Str ''x''])])
     = ''https://civitai.com/api/v1/models?token=k&token=x''"
    by (simp add: url_eval)
  show "href_params (op_url (CivitaiClient (Some ''k'')) (GetModels [(''token'', Arr [Str ''x''])]))
     = [(''token'', ''k''), (''token'', ''x'')]"
    unfolding op_url_def href_params_buildUrl by (simp add: url_eval)
qed

text \<open>
  Claim C10 (amended). For every client, every endpoint and every parameter bag (its keys
  pairwise distinct) with a \<open>token\<close> entry whose value is a number, a boolean or a
  non-empty string: the URL has exactly one \<open>token\<close> query parameter, the stringified
  value of the bag; a configured token is overwritten.
\<close>

theorem C10_bag_token_overwrites:
  assumes "distinct (map fst ps)" and "(''token'', Scalar s) \<in> set ps" and "s \<noteq> Str []"
  shows "occurrences ''token'' (href_params (buildUrl c ep ps)) = [toString s]"
proof -
  let ?u0 = "newURL (baseUrl @ ep)"
  let ?u1 = "case configured_token c of None \<Rightarrow> ?u0 | Some t \<Rightarrow> url_set ''token'' t ?u0"
  from assms(1,2) have "map_of ps ''token'' = Some (Scalar s)" by simp
  then have "occurrences ''token'' (searchParams (foldl add_param ?u1 ps)) = [toString s]"
    using occurrences_add_params [OF assms(1), of "''token''" ?u1] assms(3)
    by (simp add: value_occurrences_def)
  then show ?thesis
    by (simp add: href_params_buildUrl buildUrlObj_def Let_def)
qed

text \<open>Claim C10, witness: a client with the token \<open>k\<close> and a bag with its own token.\<close>

theorem C10_bag_token_overwrites_witness:
  "occurrences ''token''
     (href_params (buildUrl (CivitaiClient (Some ''k'')) ''/models''
        [(''limit'', Scalar (Num 5)), (''token'', Scalar (Str ''mine''))]))
     = [''mine'']"
proof -
  have d: "distinct (map fst [(''limit'', Scalar (Num 5)), (''token'', Scalar (Str ''mine''))])"
    by simp
  have m: "(''token'', Scalar (Str ''mine''))
      \<in> set [(''limit'', Scalar (Num 5)), (''token'', Scalar (Str ''mine''))]"
    by simp
  have n: "Str ''mine'' \<noteq> Str []" by simp
  show ?thesis
    using C10_bag_token_overwrites [OF d m n, of "CivitaiClient (Some ''k'')" "''/models''"]
    by simp
qed

end
